theory Spec2Isabelle
  imports Complex_Main
begin

section \<open>JavaScript numbers\<close>

text \<open>
  Every quantity of the program is a JavaScript number. A finite number is modelled by a
  real (arithmetic is exact: rounding and overflow of doubles are outside the model), and
  \<open>NaN\<close> is kept as a value of its own, because the program's comparisons and its
  \<open>||\<close> defaults behave differently on it. A field that is \<open>undefined\<close> reads as
  \<open>NaN\<close> in every arithmetic operation, comparison and truth test used below, and is
  modelled by \<open>NaN\<close>.
\<close>

datatype jsnum = Num real | NaN

text \<open>\<open>a < b\<close>, \<open>a <= b\<close>, \<open>a > b\<close>: false as soon as one side is \<open>NaN\<close>.\<close>

fun js_lt :: "jsnum \<Rightarrow> jsnum \<Rightarrow> bool" where
  "js_lt (Num a) (Num b) = (a < b)"
| "js_lt _ _ = False"

fun js_le :: "jsnum \<Rightarrow> jsnum \<Rightarrow> bool" where
  "js_le (Num a) (Num b) = (a \<le> b)"
| "js_le _ _ = False"

definition js_gt :: "jsnum \<Rightarrow> jsnum \<Rightarrow> bool" where
  "js_gt a b = js_lt b a"

text \<open>\<open>a + b\<close>, \<open>a - b\<close>, \<open>a * b\<close>, \<open>a / b\<close> on numbers: \<open>NaN\<close> propagates.
  The model has no infinities, so a division by zero is given the value \<open>NaN\<close>; every
  division of the program has a divisor that went through \<open>|| 1800\<close> or \<open>|| 1\<close> and
  is never zero.\<close>

fun js_add :: "jsnum \<Rightarrow> jsnum \<Rightarrow> jsnum" where
  "js_add (Num a) (Num b) = Num (a + b)"
| "js_add _ _ = NaN"

fun js_sub :: "jsnum \<Rightarrow> jsnum \<Rightarrow> jsnum" where
  "js_sub (Num a) (Num b) = Num (a - b)"
| "js_sub _ _ = NaN"

fun js_mul :: "jsnum \<Rightarrow> jsnum \<Rightarrow> jsnum" where
  "js_mul (Num a) (Num b) = Num (a * b)"
| "js_mul _ _ = NaN"

fun js_div :: "jsnum \<Rightarrow> jsnum \<Rightarrow> jsnum" where
  "js_div (Num a) (Num b) = (if b = 0 then NaN else Num (a / b))"
| "js_div _ _ = NaN"

text \<open>\<open>Math.min\<close>, \<open>Math.max\<close>, \<open>Math.abs\<close>, \<open>Math.round\<close> (to the nearest
  integer, a tie towards \<open>+\<infinity>\<close>).\<close>

fun js_min :: "jsnum \<Rightarrow> jsnum \<Rightarrow> jsnum" where
  "js_min (Num a) (Num b) = Num (min a b)"
| "js_min _ _ = NaN"

fun js_max :: "jsnum \<Rightarrow> jsnum \<Rightarrow> jsnum" where
  "js_max (Num a) (Num b) = Num (max a b)"
| "js_max _ _ = NaN"

fun js_abs :: "jsnum \<Rightarrow> jsnum" where
  "js_abs (Num a) = Num \<bar>a\<bar>"
| "js_abs NaN = NaN"

fun js_round :: "jsnum \<Rightarrow> jsnum" where
  "js_round (Num a) = Num (of_int \<lfloor>a + 1 / 2\<rfloor>)"
| "js_round NaN = NaN"

text \<open>Truthiness of a number and \<open>a || b\<close>: \<open>0\<close> and \<open>NaN\<close> are falsy.\<close>

fun truthy :: "jsnum \<Rightarrow> bool" where
  "truthy (Num a) = (a \<noteq> 0)"
| "truthy NaN = False"

definition js_or :: "jsnum \<Rightarrow> jsnum \<Rightarrow> jsnum" where
  "js_or a b = (if truthy a then a else b)"

section \<open>The schedule model\<close>

text \<open>
  The records of \<open>emt-routes.json\<close>, as the preprocessor builds them and the map
  component reads them. A coordinate is the pair \<open>[lon, lat]\<close>. The file is JSON, which
  has no \<open>NaN\<close>: a number field that is \<open>NaN\<close> in the preprocessor is written as \<open>null\<close>.
  A field that is \<open>null\<close> reads as \<open>0\<close> in every arithmetic operation, comparison and
  truth test of the engine, so that on the engine's side it stands as \<open>Num 0\<close>; the
  functions of the engine are nevertheless modelled on all numbers, \<open>NaN\<close> included.
\<close>

type_synonym coord = "jsnum \<times> jsnum"

record stop =
  id_stop :: string
  name_stop :: string
  coords_stop :: coord
  dist_stop :: jsnum
  arr :: jsnum

record shape =
  shapeId :: string
  headsign :: string
  direction :: jsnum
  coordinates :: "coord list"
  stops :: "stop list"

record band =
  startSec :: jsnum
  endSec :: jsnum
  headway :: jsnum
  tripDur :: jsnum

text \<open>\<open>frequencies\<close> is \<open>None\<close> when the field is missing (\<open>!freqs\<close>).\<close>

record route =
  id_route :: string
  shortName :: string
  longName :: string
  color :: string
  shapes :: "shape list"
  tripDuration :: jsnum
  frequencies :: "band list option"

subsection \<open>Through the JSON file\<close>

text \<open>
  The preprocessor writes the routes with \<open>JSON.stringify\<close> and the map component reads
  them back with \<open>r.json()\<close>. A finite number comes back as itself. A \<open>NaN\<close> is written
  as \<open>null\<close> and comes back as \<open>null\<close>, which every comparison, arithmetic operation and
  truth test of the engine reads as \<open>0\<close> (in particular \<open>null <= 0\<close> is true): it stands
  as \<open>Num 0\<close>. Texts are unchanged.
\<close>

definition json_number :: "jsnum \<Rightarrow> jsnum" where
  "json_number x = (case x of Num a \<Rightarrow> Num a | NaN \<Rightarrow> Num 0)"

definition json_coord :: "coord \<Rightarrow> coord" where
  "json_coord c = (json_number (fst c), json_number (snd c))"

definition json_stop :: "stop \<Rightarrow> stop" where
  "json_stop s =
     s\<lparr>coords_stop := json_coord (coords_stop s),
       dist_stop := json_number (dist_stop s),
       arr := json_number (arr s)\<rparr>"

definition json_shape :: "shape \<Rightarrow> shape" where
  "json_shape sh =
     sh\<lparr>direction := json_number (direction sh),
        coordinates := map json_coord (coordinates sh),
        stops := map json_stop (stops sh)\<rparr>"

definition json_band :: "band \<Rightarrow> band" where
  "json_band b =
     \<lparr>startSec = json_number (startSec b),
      endSec = json_number (endSec b),
      headway = json_number (headway b),
      tripDur = json_number (tripDur b)\<rparr>"

definition json_route :: "route \<Rightarrow> route" where
  "json_route r =
     r\<lparr>shapes := map json_shape (shapes r),
       tripDuration := json_number (tripDuration r),
       frequencies := map_option (map json_band) (frequencies r)\<rparr>"

section \<open>The position engine: \<open>activeBuses\<close>\<close>

record bus =
  progress :: jsnum

text \<open>The body of the departure loop: one candidate departure \<open>dep\<close>.
  \<^verbatim>\<open>
      const elapsed = simTime - dep
      if (elapsed < 0 || elapsed > dur) continue
      out.push({ progress: elapsed / dur })
  \<close>\<close>

definition visit :: "jsnum \<Rightarrow> jsnum \<Rightarrow> jsnum \<Rightarrow> bus list \<Rightarrow> bus list" where
  "visit simTime dur dep out =
     (let elapsed = js_sub simTime dep in
      if js_lt elapsed (Num 0) \<or> js_gt elapsed dur then out
      else out @ [\<lparr>progress = js_div elapsed dur\<rparr>])"

text \<open>\<^verbatim>\<open>for (let dep = band.startSec; dep < band.endSec; dep += band.headway)\<close>.
  Taken alone the loop need not end (a headway that is not positive never reaches
  \<open>endSec\<close>), so it is a partial function: \<open>None\<close> is the loop that runs forever.\<close>

partial_function (option) depLoop ::
    "band \<Rightarrow> jsnum \<Rightarrow> jsnum \<Rightarrow> jsnum \<Rightarrow> bus list \<Rightarrow> bus list option" where
  "depLoop band dur simTime dep out =
     (if js_lt dep (endSec band)
      then depLoop band dur simTime (js_add dep (headway band)) (visit simTime dur dep out)
      else Some out)"

text \<open>\<^verbatim>\<open>const dur = band.tripDur || route.tripDuration || 1800\<close>\<close>

definition dur_of :: "route \<Rightarrow> band \<Rightarrow> jsnum" where
  "dur_of route band = js_or (js_or (tripDur band) (tripDuration route)) (Num 1800)"

text \<open>The body of the loop over the bands:
  \<^verbatim>\<open>if (band.headway <= 0) continue\<close>, then the departure loop.\<close>

definition bandBuses :: "route \<Rightarrow> jsnum \<Rightarrow> band \<Rightarrow> bus list \<Rightarrow> bus list option" where
  "bandBuses route simTime band out =
     (if js_le (headway band) (Num 0) then Some out
      else depLoop band (dur_of route band) simTime (startSec band) out)"

fun forBands :: "route \<Rightarrow> jsnum \<Rightarrow> band list \<Rightarrow> bus list \<Rightarrow> bus list option" where
  "forBands route simTime [] out = Some out"
| "forBands route simTime (band # rest) out =
     (case bandBuses route simTime band out of
        None \<Rightarrow> None
      | Some out' \<Rightarrow> forBands route simTime rest out')"

definition activeBuses :: "route \<Rightarrow> jsnum \<Rightarrow> bus list option" where
  "activeBuses route simTime =
     (case frequencies route of
        None \<Rightarrow> Some []
      | Some freqs \<Rightarrow> if length freqs = 0 then Some [] else forBands route simTime freqs [])"

text \<open>The vehicles that one band's pass through the loop appends.\<close>

definition bandVehicles :: "route \<Rightarrow> jsnum \<Rightarrow> band \<Rightarrow> bus list" where
  "bandVehicles route simTime band =
     (case bandBuses route simTime band [] of Some out \<Rightarrow> out | None \<Rightarrow> [])"

text \<open>The specification's words, to compare the loop with: the departures
  \<open>s, s + h, s + 2h, \<dots>\<close> below \<open>e\<close>, and one vehicle for each departure \<open>dep\<close>
  with \<open>0 \<le> t - dep \<le> d\<close>, at progress \<open>(t - dep) / d\<close>.\<close>

definition spec_departures :: "real \<Rightarrow> real \<Rightarrow> real \<Rightarrow> real list" where
  "spec_departures s e h = map (\<lambda>k. s + real k * h) [0..<nat \<lceil>(e - s) / h\<rceil>]"

definition spec_vehicles :: "real \<Rightarrow> real \<Rightarrow> real list \<Rightarrow> bus list" where
  "spec_vehicles t d deps =
     map (\<lambda>dep. \<lparr>progress = Num ((t - dep) / d)\<rparr>)
       (filter (\<lambda>dep. 0 \<le> t - dep \<and> t - dep \<le> d) deps)"

section \<open>The position engine: one frame of \<open>tick\<close>\<close>

text \<open>
  \<open>turf.lineString\<close>, \<open>turf.length\<close> and \<open>turf.along\<close> belong to the Turf library and
  are parameters of the model: \<open>turf_length coords\<close> is the length in kilometres of the
  line through \<open>coords\<close> and \<open>turf_along coords km\<close> the point at that distance along
  it; \<open>None\<close> is a call that throws.
\<close>

type_synonym geo = "coord list \<times> jsnum"

text \<open>\<^verbatim>\<open>
  const routeGeo = routes.map(r => {
    const sh = r.shapes[0]
    if (!sh || sh.coordinates.length < 2) return null
    try {
      const line = turf.lineString(sh.coordinates)
      const len = turf.length(line, { units: 'kilometers' })
      return len > 0.05 ? { line, len } : null
    } catch { return null }
  })
\<close>\<close>

definition routeGeo :: "(coord list \<Rightarrow> jsnum option) \<Rightarrow> route \<Rightarrow> geo option" where
  "routeGeo turf_length r =
     (case shapes r of
        [] \<Rightarrow> None
      | sh # _ \<Rightarrow>
          if length (coordinates sh) < 2 then None
          else (case turf_length (coordinates sh) of
                  None \<Rightarrow> None
                | Some len \<Rightarrow> if js_gt len (Num (5 / 100)) then Some (coordinates sh, len) else None))"

definition ROUTE_PALETTE :: "string list" where
  "ROUTE_PALETTE =
     [''#FF0000'', ''#FFB8FF'', ''#00FFFF'', ''#FFB852'', ''#FF69B4'', ''#7FFF00'',
      ''#FF4500'', ''#DA70D6'', ''#1E90FF'', ''#FFD700'', ''#00FF7F'', ''#FF6347'']"

definition routeColor :: "nat \<Rightarrow> string" where
  "routeColor i = ROUTE_PALETTE ! (i mod length ROUTE_PALETTE)"

record 'pt feature =
  geometry :: 'pt
  lineNumber :: string
  routeName :: string
  headsign_f :: string
  color_f :: string
  icon :: string

text \<open>What a frame accumulates: the bus features, the set of stops eaten in this frame
  and the bus count.\<close>

record 'pt frame =
  features :: "'pt feature list"
  nowEaten :: "string set"
  busCount :: nat

text \<open>The stops of the first shape within the tolerance of progress \<open>p\<close>:
  \<^verbatim>\<open>
    const sh = route.shapes[0]
    if (sh?.stops?.length) {
      const totalD = sh.stops[sh.stops.length - 1]?.dist || 1
      for (const s of sh.stops)
        if (Math.abs(p - s.dist / totalD) < 0.015) nowEaten.add(s.id)
    }
  \<close>\<close>

definition eatenStops :: "route \<Rightarrow> jsnum \<Rightarrow> string set" where
  "eatenStops route p =
     (case shapes route of
        [] \<Rightarrow> {}
      | sh # _ \<Rightarrow>
          if stops sh = [] then {}
          else let totalD = js_or (dist_stop (last (stops sh))) (Num 1)
               in id_stop ` set (filter
                    (\<lambda>s. js_lt (js_abs (js_sub p (js_div (dist_stop s) totalD))) (Num (15 / 1000)))
                    (stops sh)))"

text \<open>The body of the loop over the active buses of a route. \<open>turf.along\<close> is the first
  statement of the \<open>try\<close> block, so a throw leaves the frame as it was.\<close>

definition busStep ::
    "(coord list \<Rightarrow> jsnum \<Rightarrow> 'pt option) \<Rightarrow> route option \<Rightarrow> route \<Rightarrow> nat \<Rightarrow> geo \<Rightarrow> bus
      \<Rightarrow> 'pt frame \<Rightarrow> 'pt frame" where
  "busStep turf_along sel route ri g ab fr =
     (let p = js_max (Num (1 / 1000)) (js_min (Num (999 / 1000)) (progress ab)) in
      case turf_along (fst g) (js_mul p (snd g)) of
        None \<Rightarrow> fr
      | Some pt \<Rightarrow>
          let isSelected = (case sel of None \<Rightarrow> False | Some s \<Rightarrow> id_route route = id_route s)
          in \<lparr>features = features fr @
                 [\<lparr>geometry = pt,
                   lineNumber = shortName route,
                   routeName = longName route,
                   headsign_f = (case shapes route of [] \<Rightarrow> [] | sh # _ \<Rightarrow> headsign sh),
                   color_f = (if color route \<noteq> [] then color route else routeColor ri),
                   icon = (if isSelected then ''pacman-hl'' else ''pacman'')\<rparr>],
              nowEaten = nowEaten fr \<union> eatenStops route p,
              busCount = busCount fr + 1\<rparr>)"

text \<open>The callback of \<open>routes.forEach\<close> in \<open>tick\<close>:
  \<^verbatim>\<open>
    const geo = routeGeo[ri]
    if (!geo) return
    const abs = activeBuses(route, t)
    for (const ab of abs) { ... }
  \<close>\<close>

definition routeTick ::
    "(coord list \<Rightarrow> jsnum \<Rightarrow> 'pt option) \<Rightarrow> route option \<Rightarrow> jsnum \<Rightarrow> route \<Rightarrow> nat \<Rightarrow> geo option
      \<Rightarrow> 'pt frame \<Rightarrow> 'pt frame option" where
  "routeTick turf_along sel t route ri geo fr =
     (case geo of
        None \<Rightarrow> Some fr
      | Some g \<Rightarrow>
          (case activeBuses route t of
             None \<Rightarrow> None
           | Some buses \<Rightarrow> Some (foldl (\<lambda>fr ab. busStep turf_along sel route ri g ab fr) fr buses)))"

fun forRoutes ::
    "(coord list \<Rightarrow> jsnum \<Rightarrow> 'pt option) \<Rightarrow> route option \<Rightarrow> jsnum \<Rightarrow> (route \<times> nat \<times> geo option) list
      \<Rightarrow> 'pt frame \<Rightarrow> 'pt frame option" where
  "forRoutes turf_along sel t [] fr = Some fr"
| "forRoutes turf_along sel t ((route, ri, geo) # rest) fr =
     (case routeTick turf_along sel t route ri geo fr of
        None \<Rightarrow> None
      | Some fr' \<Rightarrow> forRoutes turf_along sel t rest fr')"

definition computeFrame ::
    "(coord list \<Rightarrow> jsnum option) \<Rightarrow> (coord list \<Rightarrow> jsnum \<Rightarrow> 'pt option) \<Rightarrow> route list
      \<Rightarrow> route option \<Rightarrow> jsnum \<Rightarrow> 'pt frame option" where
  "computeFrame turf_length turf_along routes sel t =
     forRoutes turf_along sel t
       (zip routes (zip [0..<length routes] (map (routeGeo turf_length) routes)))
       \<lparr>features = [], nowEaten = {}, busCount = 0\<rparr>"

section \<open>The clock driver\<close>

definition SIM_SPEED :: real where "SIM_SPEED = 60"
definition T_MIN :: real where "T_MIN = 5 * 3600"
definition T_MAX :: real where "T_MAX = 26 * 3600"

text \<open>The updater passed to \<open>setSimTime\<close>:
  \<^verbatim>\<open>
    prev => { let n = prev + dt * SIM_SPEED
              if (n > T_MAX) n = T_MIN
              return n }
  \<close>\<close>

definition advance :: "real \<Rightarrow> real \<Rightarrow> real" where
  "advance dt prev = (let n = prev + dt * SIM_SPEED in if n > T_MAX then T_MIN else n)"

text \<open>One animation step at timestamp \<open>ts\<close> (milliseconds): the clock moves only when a
  previous timestamp is known.\<close>

record clock =
  lastT :: "real option"
  simTime_now :: real

definition step :: "real \<Rightarrow> clock \<Rightarrow> clock" where
  "step ts c =
     \<lparr>lastT = Some ts,
      simTime_now = (case lastT c of
                   None \<Rightarrow> simTime_now c
                 | Some l \<Rightarrow> advance ((ts - l) / 1000) (simTime_now c))\<rparr>"

section \<open>The preprocessor\<close>

text \<open>
  \<open>parseInt\<close> and \<open>Number\<close> are built-ins of the language, not code of the
  repository: where a function of the preprocessor calls one, the model takes it as a
  parameter, a function from the field's text to a number or \<open>NaN\<close>. The objects that
  the preprocessor uses as dictionaries (\<open>tripRoute\<close>, \<open>tripStops\<close>, \<open>routeFreqs\<close>) are
  maps from the key's text; a key that names a property every object inherits (such as
  \<open>constructor\<close>) is outside the model.
\<close>

text \<open>\<open>t.split(c)\<close> for a one-character separator.\<close>

fun split_on :: "char \<Rightarrow> string \<Rightarrow> string list" where
  "split_on c [] = [[]]"
| "split_on c (x # xs) =
     (if x = c then [] # split_on c xs
      else (case split_on c xs of
              [] \<Rightarrow> [[x]]
            | w # ws \<Rightarrow> (x # w) # ws))"

text \<open>An element of an array of numbers; past the end it is \<open>undefined\<close>.\<close>

definition at_index :: "jsnum list \<Rightarrow> nat \<Rightarrow> jsnum" where
  "at_index xs i = (if i < length xs then xs ! i else NaN)"

text \<open>\<^verbatim>\<open>
  function timeToSec(t) {
    const [h, m, s] = t.split(':').map(Number);
    return h * 3600 + m * 60 + (s || 0);
  }
\<close>\<close>

definition timeToSec :: "(string \<Rightarrow> jsnum) \<Rightarrow> string \<Rightarrow> jsnum" where
  "timeToSec Number t =
     (let parts = map Number (split_on CHR '':'' t);
          h = at_index parts 0; m = at_index parts 1; s = at_index parts 2
      in js_add (js_add (js_mul h (Num 3600)) (js_mul m (Num 60))) (js_or s (Num 0)))"

subsection \<open>Frequencies\<close>

text \<open>A row of \<open>frequencies.txt\<close> and an entry of \<open>tripStops[trip_id]\<close>.\<close>

record freq_row =
  trip_id :: string
  start_time :: string
  end_time :: string
  headway_secs :: string

record trip_stop =
  stop_id :: string
  seq :: jsnum
  dist_ts :: jsnum
  arrSec :: jsnum

datatype error = TypeError

text \<open>\<^verbatim>\<open>
  const sts = tripStops[f.trip_id];
  const tripDur = sts ? (sts[sts.length - 1].arrSec - sts[0].arrSec) : 1800;
\<close>
  An array is truthy even when it is empty, and reading \<open>arrSec\<close> of the missing element
  of an empty array throws.\<close>

definition tripDurOf :: "(string \<rightharpoonup> trip_stop list) \<Rightarrow> string \<Rightarrow> error + jsnum" where
  "tripDurOf tripStops tid =
     (case tripStops tid of
        None \<Rightarrow> Inr (Num 1800)
      | Some sts \<Rightarrow>
          if sts = [] then Inl TypeError
          else Inr (js_sub (arrSec (sts ! (length sts - 1))) (arrSec (sts ! 0))))"

text \<open>The body of the loop over the rows of \<open>frequencies.txt\<close>:
  \<^verbatim>\<open>
    const routeId = tripRoute[f.trip_id];
    if (!routeId) continue;
    if (!routeFreqs[routeId]) routeFreqs[routeId] = [];
    ...
    routeFreqs[routeId].push({
      startSec: timeToSec(f.start_time),
      endSec: timeToSec(f.end_time),
      headway: parseInt(f.headway_secs),
      tripDur,
    });
  \<close>
  A route id that is the empty string is falsy, like a missing one.\<close>

definition bandOfRow :: "(string \<Rightarrow> jsnum) \<Rightarrow> (string \<Rightarrow> jsnum) \<Rightarrow> jsnum \<Rightarrow> freq_row \<Rightarrow> band" where
  "bandOfRow parseInt Number td f =
     \<lparr>startSec = timeToSec Number (start_time f),
      endSec = timeToSec Number (end_time f),
      headway = parseInt (headway_secs f),
      tripDur = td\<rparr>"

definition addFreq ::
    "(string \<Rightarrow> jsnum) \<Rightarrow> (string \<Rightarrow> jsnum) \<Rightarrow> (string \<rightharpoonup> string) \<Rightarrow> (string \<rightharpoonup> trip_stop list)
      \<Rightarrow> freq_row \<Rightarrow> (string \<rightharpoonup> band list) \<Rightarrow> error + (string \<rightharpoonup> band list)" where
  "addFreq parseInt Number tripRoute tripStops f routeFreqs =
     (case tripRoute (trip_id f) of
        None \<Rightarrow> Inr routeFreqs
      | Some routeId \<Rightarrow>
          if routeId = [] then Inr routeFreqs
          else
            let bands = (case routeFreqs routeId of None \<Rightarrow> [] | Some bs \<Rightarrow> bs) in
            (case tripDurOf tripStops (trip_id f) of
               Inl e \<Rightarrow> Inl e
             | Inr td \<Rightarrow> Inr (routeFreqs(routeId \<mapsto> bands @ [bandOfRow parseInt Number td f]))))"

fun collectFreqs ::
    "(string \<Rightarrow> jsnum) \<Rightarrow> (string \<Rightarrow> jsnum) \<Rightarrow> (string \<rightharpoonup> string) \<Rightarrow> (string \<rightharpoonup> trip_stop list)
      \<Rightarrow> freq_row list \<Rightarrow> (string \<rightharpoonup> band list) \<Rightarrow> error + (string \<rightharpoonup> band list)" where
  "collectFreqs parseInt Number tripRoute tripStops [] routeFreqs = Inr routeFreqs"
| "collectFreqs parseInt Number tripRoute tripStops (f # rest) routeFreqs =
     (case addFreq parseInt Number tripRoute tripStops f routeFreqs of
        Inl e \<Rightarrow> Inl e
      | Inr routeFreqs' \<Rightarrow> collectFreqs parseInt Number tripRoute tripStops rest routeFreqs')"

subsection \<open>Merging the bands of a route\<close>

text \<open>
  \<open>merged\<close> is an object keyed by the text \<open>`${b.startSec}-${b.endSec}`\<close>. The text of a
  number never ends in \<open>-\<close> and \<open>NaN\<close> prints as \<open>NaN\<close>, so two keys are equal exactly
  when the two pairs of values are, and the key is modelled by the pair. No key is the
  text of an array index, so \<open>Object.values\<close> lists the bands in the order their keys were
  first inserted: the object is an association list, and assigning to a key that is
  present replaces its value in place.
\<close>

type_synonym window = "jsnum \<times> jsnum"

definition window :: "band \<Rightarrow> window" where
  "window b = (startSec b, endSec b)"

fun assign :: "window \<Rightarrow> band \<Rightarrow> (window \<times> band) list \<Rightarrow> (window \<times> band) list" where
  "assign k b [] = [(k, b)]"
| "assign k b ((k', b') # rest) =
     (if k' = k then (k, b) # rest else (k', b') # assign k b rest)"

text \<open>\<^verbatim>\<open>
  const key = `${b.startSec}-${b.endSec}`;
  if (!merged[key] || b.headway < merged[key].headway) merged[key] = b;
\<close>\<close>

definition mergeStep :: "band \<Rightarrow> (window \<times> band) list \<Rightarrow> (window \<times> band) list" where
  "mergeStep b merged =
     (case map_of merged (window b) of
        None \<Rightarrow> assign (window b) b merged
      | Some m \<Rightarrow> if js_lt (headway b) (headway m) then assign (window b) b merged else merged)"

text \<open>
  \<open>.sort((a, b) => a.startSec - b.startSec)\<close>. The sort is stable and the comparator's
  result \<open>NaN\<close> counts as \<open>0\<close>. When every \<open>startSec\<close> is a number the comparator is a
  total preorder and every stable sort returns the list below; when some \<open>startSec\<close> is
  \<open>NaN\<close> the comparator is inconsistent and the language leaves the order to the
  implementation, so that nothing is stated about the order then.
\<close>

fun insertBand :: "band \<Rightarrow> band list \<Rightarrow> band list" where
  "insertBand x [] = [x]"
| "insertBand x (y # ys) =
     (if js_gt (js_sub (startSec x) (startSec y)) (Num 0) then y # insertBand x ys
      else x # y # ys)"

definition sortBands :: "band list \<Rightarrow> band list" where
  "sortBands bs = foldr insertBand bs []"

definition mergeBands :: "band list \<Rightarrow> band list" where
  "mergeBands bands = sortBands (map snd (foldl (\<lambda>merged b. mergeStep b merged) [] bands))"

text \<open>\<^verbatim>\<open>for (const rid of Object.keys(routeFreqs)) { ... routeFreqs[rid] = ... }\<close>, and what
  a route is given: \<^verbatim>\<open>frequencies: routeFreqs[route.route_id] || []\<close>.\<close>

definition mergeAll :: "(string \<rightharpoonup> band list) \<Rightarrow> (string \<rightharpoonup> band list)" where
  "mergeAll routeFreqs = (\<lambda>rid. map_option mergeBands (routeFreqs rid))"

definition emittedFrequencies ::
    "(string \<Rightarrow> jsnum) \<Rightarrow> (string \<Rightarrow> jsnum) \<Rightarrow> (string \<rightharpoonup> string) \<Rightarrow> (string \<rightharpoonup> trip_stop list)
      \<Rightarrow> freq_row list \<Rightarrow> string \<Rightarrow> error + band list" where
  "emittedFrequencies parseInt Number tripRoute tripStops freqRaw route_id =
     (case collectFreqs parseInt Number tripRoute tripStops freqRaw Map.empty of
        Inl e \<Rightarrow> Inl e
      | Inr routeFreqs \<Rightarrow>
          Inr (case mergeAll routeFreqs route_id of None \<Rightarrow> [] | Some bs \<Rightarrow> bs))"

subsection \<open>Simplifying a shape\<close>

record shape_pt =
  lat :: jsnum
  lon :: jsnum
  seq_pt :: jsnum

text \<open>\<open>Math.round(x * 1e6) / 1e6\<close>\<close>

definition round6 :: "jsnum \<Rightarrow> jsnum" where
  "round6 x = js_div (js_round (js_mul x (Num 1000000))) (Num 1000000)"

definition coordOf :: "shape_pt \<Rightarrow> coord" where
  "coordOf p = (round6 (lon p), round6 (lat p))"

definition stepOf :: "nat \<Rightarrow> nat" where
  "stepOf n = (if n > 200 then 3 else if n > 100 then 2 else 1)"

text \<open>\<^verbatim>\<open>
  for (let i = 0; i < pts.length; i++) {
    if (i === 0 || i === pts.length - 1 || i % step === 0) {
      coords.push([Math.round(pts[i].lon * 1e6) / 1e6, Math.round(pts[i].lat * 1e6) / 1e6]);
    }
  }
\<close>\<close>

function simplifyLoop :: "shape_pt list \<Rightarrow> nat \<Rightarrow> nat \<Rightarrow> coord list \<Rightarrow> coord list" where
  "simplifyLoop pts stp i coords =
     (if i < length pts
      then simplifyLoop pts stp (i + 1)
             (if i = 0 \<or> i = length pts - 1 \<or> i mod stp = 0
              then coords @ [coordOf (pts ! i)] else coords)
      else coords)"
  by pat_completeness auto
termination
  by (relation "measure (\<lambda>(pts, stp, i, coords). length pts - i)") auto

text \<open>\<^verbatim>\<open>
  const pts = shapesMap[ti.shape_id];
  if (!pts || pts.length < 2) continue;
  const step = pts.length > 200 ? 3 : pts.length > 100 ? 2 : 1;
\<close>
  \<open>None\<close> is the shape that is skipped.\<close>

definition simplifyShape :: "shape_pt list option \<Rightarrow> coord list option" where
  "simplifyShape shp =
     (case shp of
        None \<Rightarrow> None
      | Some pts \<Rightarrow>
          if length pts < 2 then None
          else Some (simplifyLoop pts (stepOf (length pts)) 0 []))"

subsection \<open>The stop document\<close>

text \<open>\<^verbatim>\<open>
  const seen = new Set();
  const allStops = [];
  for (const r of outputRoutes)
    for (const sh of r.shapes)
      for (const s of sh.stops)
        if (!seen.has(s.id)) { seen.add(s.id); allStops.push(s); }
\<close>\<close>

definition addStop :: "stop \<Rightarrow> string set \<times> stop list \<Rightarrow> string set \<times> stop list" where
  "addStop s st =
     (if id_stop s \<in> fst st then st else (insert (id_stop s) (fst st), snd st @ [s]))"

definition uniqueStops :: "route list \<Rightarrow> stop list" where
  "uniqueStops outputRoutes =
     snd (fold (\<lambda>r. fold (\<lambda>sh. fold addStop (stops sh)) (shapes r)) outputRoutes ({}, []))"

section \<open>Loop invariants\<close>

text \<open>The invariant of the loop that collects the stop document: \<open>seen\<close> holds exactly the
  ids of \<open>allStops\<close>, and no id occurs twice in \<open>allStops\<close>.\<close>

definition seen_inv :: "string set \<times> stop list \<Rightarrow> bool" where
  "seen_inv st = (fst st = id_stop ` set (snd st) \<and> distinct (map id_stop (snd st)))"

text \<open>The bands collected for a route so far (\<open>routeFreqs[rid]\<close>, nothing when the key is
  absent).\<close>

definition collected :: "(string \<rightharpoonup> band list) \<Rightarrow> string \<Rightarrow> band list" where
  "collected routeFreqs rid = (case routeFreqs rid of None \<Rightarrow> [] | Some bs \<Rightarrow> bs)"

text \<open>The invariant of the merge loop, \<open>seen\<close> being the bands read so far: the keys of
  \<open>merged\<close> are pairwise different and are the windows of the bands seen; the band under
  a key has that window, is one of the bands seen, and no band seen with that window has
  a headway that compares less than its own.\<close>

definition merged_inv :: "band list \<Rightarrow> (window \<times> band) list \<Rightarrow> bool" where
  "merged_inv seen merged =
     (distinct (map fst merged)
      \<and> window ` set seen = fst ` set merged
      \<and> (\<forall>(k, m) \<in> set merged. window m = k \<and> m \<in> set seen
            \<and> (\<forall>b \<in> set seen. window b = k \<longrightarrow> \<not> js_lt (headway b) (headway m))))"

section \<open>Example inputs\<close>

text \<open>The band of the specification's example, on a route that has only this band.\<close>

definition band0 :: band where
  "band0 = \<lparr>startSec = Num 28800, endSec = Num 32400, headway = Num 600, tripDur = Num 1800\<rparr>"

definition route0 :: route where
  "route0 = \<lparr>id_route = ''R1'', shortName = ''1'', longName = ''Line 1'', color = ''#0178BC'',
              shapes = [], tripDuration = Num 1800, frequencies = Some [band0]\<rparr>"

text \<open>A route whose first shape has a single point and whose second shape is a line.\<close>

definition shape1 :: shape where
  "shape1 = \<lparr>shapeId = ''S1'', headsign = ''Sol'', direction = Num 0,
              coordinates = [(Num (-3.7), Num 40.4)],
              stops = [\<lparr>id_stop = ''P1'', name_stop = ''Sol'', coords_stop = (Num (-3.7), Num 40.4),
                        dist_stop = Num 0, arr = Num 28800\<rparr>]\<rparr>"

definition shape2 :: shape where
  "shape2 = \<lparr>shapeId = ''S2'', headsign = ''Atocha'', direction = Num 1,
              coordinates = [(Num (-3.7), Num 40.4), (Num (-3.69), Num 40.41)],
              stops = []\<rparr>"

definition route1 :: route where
  "route1 = route0\<lparr>shapes := [shape1, shape2]\<rparr>"

definition frame0 :: "unit frame" where
  "frame0 = \<lparr>features = [], nowEaten = {}, busCount = 0\<rparr>"

text \<open>Two stops, on a route whose two shapes visit them in opposite orders.\<close>

definition stopA :: stop where
  "stopA = \<lparr>id_stop = ''P1'', name_stop = ''Sol'', coords_stop = (Num (-3.7), Num 40.4),
             dist_stop = Num 0, arr = Num 28800\<rparr>"

definition stopB :: stop where
  "stopB = \<lparr>id_stop = ''P2'', name_stop = ''Atocha'', coords_stop = (Num (-3.69), Num 40.41),
             dist_stop = Num 1200, arr = Num 29100\<rparr>"

definition route2 :: route where
  "route2 = route0\<lparr>shapes := [shape2\<lparr>stops := [stopA, stopB]\<rparr>, shape2\<lparr>stops := [stopB, stopA]\<rparr>]\<rparr>"

text \<open>Three shape points; the last has a latitude that did not parse and a longitude
  that lies half-way between two roundings.\<close>

definition pts3 :: "shape_pt list" where
  "pts3 = [\<lparr>lat = Num 40.4168004, lon = Num (-3.7037996), seq_pt = Num 1\<rparr>,
           \<lparr>lat = Num 40.42, lon = Num (-3.70), seq_pt = Num 2\<rparr>,
           \<lparr>lat = NaN, lon = Num (-3.6912345), seq_pt = Num 3\<rparr>]"

text \<open>
  The examples need the two built-ins at a few texts. On a text of decimal digits, with
  or without a minus sign in front, \<open>parseInt\<close> and \<open>Number\<close> both return the number
  written; on the text \<open>abc\<close> both return \<open>NaN\<close>. \<open>decimal\<close> is that common value: it
  stands for the built-ins in the examples only, which hold no text of another form, and
  no theorem about all inputs mentions it.
\<close>

definition digit_val :: "char \<Rightarrow> nat option" where
  "digit_val c = (let n = of_char c :: nat in if 48 \<le> n \<and> n \<le> 57 then Some (n - 48) else None)"

fun digits_val :: "string \<Rightarrow> nat \<Rightarrow> nat option" where
  "digits_val [] acc = Some acc"
| "digits_val (c # cs) acc =
     (case digit_val c of None \<Rightarrow> None | Some d \<Rightarrow> digits_val cs (10 * acc + d))"

definition decimal :: "string \<Rightarrow> jsnum" where
  "decimal s =
     (case s of
        [] \<Rightarrow> NaN
      | c # cs \<Rightarrow>
          if c = CHR ''-''
          then (if cs = [] then NaN
                else case digits_val cs 0 of None \<Rightarrow> NaN | Some n \<Rightarrow> Num (- real n))
          else (case digits_val s 0 of None \<Rightarrow> NaN | Some n \<Rightarrow> Num (real n)))"

text \<open>Rows of \<open>frequencies.txt\<close> for trip \<open>T1\<close> of route \<open>R1\<close> (and one row of a trip
  that belongs to no route), stop times of \<open>T1\<close> with one and with two stops, and a band
  of an earlier window.\<close>

definition tripRoute0 :: "string \<rightharpoonup> string" where
  "tripRoute0 = Map.empty(''T1'' \<mapsto> ''R1'')"

definition rows0 :: "freq_row list" where
  "rows0 = [\<lparr>trip_id = ''T1'', start_time = ''08:00:00'', end_time = ''09:00:00'', headway_secs = ''0''\<rparr>,
            \<lparr>trip_id = ''T1'', start_time = ''09:00:00'', end_time = ''10:00:00'', headway_secs = ''abc''\<rparr>,
            \<lparr>trip_id = ''T9'', start_time = ''09:00:00'', end_time = ''10:00:00'', headway_secs = ''600''\<rparr>]"

definition rowAbc :: freq_row where
  "rowAbc = \<lparr>trip_id = ''T1'', start_time = ''08:00:00'', end_time = ''09:00:00'', headway_secs = ''abc''\<rparr>"

definition row600 :: freq_row where
  "row600 = \<lparr>trip_id = ''T1'', start_time = ''08:00:00'', end_time = ''09:00:00'', headway_secs = ''600''\<rparr>"

definition oneStop :: "string \<rightharpoonup> trip_stop list" where
  "oneStop = Map.empty(''T1'' \<mapsto> [\<lparr>stop_id = ''P1'', seq = Num 1, dist_ts = Num 0, arrSec = Num 28800\<rparr>])"

definition twoStops :: "string \<rightharpoonup> trip_stop list" where
  "twoStops = Map.empty(''T1'' \<mapsto> [\<lparr>stop_id = ''P1'', seq = Num 1, dist_ts = Num 0, arrSec = Num 28800\<rparr>,
                                    \<lparr>stop_id = ''P2'', seq = Num 2, dist_ts = Num 1200, arrSec = Num 30000\<rparr>])"

definition bandEarly :: band where
  "bandEarly = \<lparr>startSec = Num 21600, endSec = Num 28800, headway = Num 900, tripDur = Num 1800\<rparr>"

section \<open>The position engine: proofs\<close>

lemma spec_departures_stop: "0 < h \<Longrightarrow> \<not> s < e \<Longrightarrow> spec_departures s e h = []"
proof -
  assume h: "0 < h" and "\<not> s < e"
  then have "(e - s) / h \<le> 0" by (simp add: divide_nonpos_pos)
  then have "\<lceil>(e - s) / h\<rceil> \<le> 0" by (simp add: ceiling_le_zero)
  then show ?thesis by (simp add: spec_departures_def)
qed

lemma spec_departures_step:
  assumes h: "0 < h" and lt: "s < e"
  shows "spec_departures s e h = s # spec_departures (s + h) e h"
proof -
  let ?n = "nat \<lceil>(e - (s + h)) / h\<rceil>"
  have eq: "(e - s) / h = (e - (s + h)) / h + 1"
    using h by (simp add: field_simps)
  have pos: "0 < (e - s) / h" using h lt by simp
  then have "0 < \<lceil>(e - s) / h\<rceil>" by (simp add: ceiling_less_iff)
  moreover have "\<lceil>(e - s) / h\<rceil> = \<lceil>(e - (s + h)) / h\<rceil> + 1"
    by (subst eq) simp
  ultimately have n: "nat \<lceil>(e - s) / h\<rceil> = Suc ?n" by linarith
  have "[0..<Suc ?n] = 0 # map Suc [0..<?n]"
    by (simp only: map_Suc_upt upt_conv_Cons [of 0 "Suc ?n", OF zero_less_Suc])
  then have "map (\<lambda>k. s + real k * h) [0..<Suc ?n]
      = (s + real 0 * h) # map (\<lambda>k. s + real (Suc k) * h) [0..<?n]"
    by (simp only: list.map map_map o_def)
  also have "\<dots> = s # map (\<lambda>k. (s + h) + real k * h) [0..<?n]"
    by (simp add: algebra_simps)
  finally show ?thesis by (simp only: spec_departures_def n)
qed

lemma less_nat_ceiling: "k < nat \<lceil>x::real\<rceil> \<longleftrightarrow> real k < x"
proof -
  have "k < nat \<lceil>x\<rceil> \<longleftrightarrow> int k < \<lceil>x\<rceil>" by linarith
  also have "\<dots> \<longleftrightarrow> of_int (int k) < x" by (rule less_ceiling_iff)
  finally show ?thesis by simp
qed

lemma in_spec_departures:
  assumes h: "0 < h"
  shows "d \<in> set (spec_departures s e h) \<longleftrightarrow> (\<exists>k::nat. d = s + real k * h \<and> d < e)"
proof -
  have *: "k < nat \<lceil>(e - s) / h\<rceil> \<longleftrightarrow> s + real k * h < e" for k :: nat
  proof -
    have "k < nat \<lceil>(e - s) / h\<rceil> \<longleftrightarrow> real k < (e - s) / h"
      by (rule less_nat_ceiling)
    also have "\<dots> \<longleftrightarrow> real k * h < e - s"
      using h by (simp only: pos_less_divide_eq)
    also have "\<dots> \<longleftrightarrow> s + real k * h < e" by linarith
    finally show ?thesis .
  qed
  have "d \<in> set (spec_departures s e h) \<longleftrightarrow> (\<exists>k. k < nat \<lceil>(e - s) / h\<rceil> \<and> d = s + real k * h)"
    unfolding spec_departures_def set_map set_upt image_iff Bex_def atLeastLessThan_iff by (simp only: le0 simp_thms)
  also have "\<dots> \<longleftrightarrow> (\<exists>k::nat. d = s + real k * h \<and> d < e)"
    using * by blast
  finally show ?thesis .
qed

lemma depLoop_positive:
  assumes "0 < h" "endSec band = Num e" "headway band = Num h"
  shows "depLoop band dur t (Num s) out
       = Some (foldl (\<lambda>acc d. visit t dur (Num d) acc) out (spec_departures s e h))"
  using assms
proof (induction "length (spec_departures s e h)" arbitrary: s out)
  case 0
  then have nil: "spec_departures s e h = []" by simp
  have "\<not> s < e"
  proof
    assume "s < e"
    from spec_departures_step [OF \<open>0 < h\<close> this] nil show False by simp
  qed
  then show ?case using 0(3) nil
    by (subst depLoop.simps) simp
next
  case (Suc n)
  have lt: "s < e"
  proof (rule ccontr)
    assume "\<not> s < e"
    from spec_departures_stop [OF \<open>0 < h\<close> this] Suc(2) show False by simp
  qed
  have st: "spec_departures s e h = s # spec_departures (s + h) e h"
    using spec_departures_step [OF \<open>0 < h\<close> lt] .
  have "Suc n = length (s # spec_departures (s + h) e h)"
    using Suc(2) by (simp only: st)
  then have "n = length (spec_departures (s + h) e h)" by simp
  from Suc(1) [OF this Suc(3-5)]
  have "depLoop band dur t (Num (s + h)) (visit t dur (Num s) out)
      = Some (foldl (\<lambda>acc d. visit t dur (Num d) acc) (visit t dur (Num s) out)
               (spec_departures (s + h) e h))" .
  then show ?case using lt Suc(4,5)
    by (subst depLoop.simps) (simp add: st)
qed


lemma dur_of_cases:
  "dur_of route band =
     (if truthy (tripDur band) then tripDur band
      else if truthy (tripDuration route) then tripDuration route
      else Num 1800)"
  by (simp add: dur_of_def js_or_def)

lemma dur_of_Num: "\<exists>d. dur_of route band = Num d \<and> d \<noteq> 0"
proof -
  have "truthy (dur_of route band)"
    by (simp add: dur_of_cases)
  then show ?thesis by (cases "dur_of route band") simp_all
qed

lemma visit_Num:
  "d \<noteq> 0 \<Longrightarrow> visit (Num t) (Num d) (Num dep) out = out @ spec_vehicles t d [dep]"
  by (simp add: visit_def spec_vehicles_def js_gt_def not_less)

lemma spec_vehicles_Cons:
  "spec_vehicles t d (dep # deps) = spec_vehicles t d [dep] @ spec_vehicles t d deps"
  by (simp add: spec_vehicles_def)

lemma foldl_visit:
  "d \<noteq> 0 \<Longrightarrow>
   foldl (\<lambda>acc dep. visit (Num t) (Num d) (Num dep) acc) out deps = out @ spec_vehicles t d deps"
proof (induction deps arbitrary: out)
  case Nil
  show ?case by (simp add: spec_vehicles_def)
next
  case (Cons dep deps)
  have "foldl (\<lambda>acc dep. visit (Num t) (Num d) (Num dep) acc) out (dep # deps)
      = foldl (\<lambda>acc dep. visit (Num t) (Num d) (Num dep) acc) (out @ spec_vehicles t d [dep]) deps"
    using Cons.prems by (simp add: visit_Num)
  also have "\<dots> = (out @ spec_vehicles t d [dep]) @ spec_vehicles t d deps"
    using Cons.prems by (rule Cons.IH)
  finally show ?case by (simp only: append_assoc spec_vehicles_Cons [of t d dep deps])
qed

lemma bandBuses_positive:
  assumes "startSec band = Num s" "endSec band = Num e" "headway band = Num h" "0 < h"
    and "dur_of route band = Num d"
  shows "bandBuses route (Num t) band out = Some (out @ spec_vehicles t d (spec_departures s e h))"
proof -
  from dur_of_Num [of route band] assms(5) have d: "d \<noteq> 0" by auto
  have "\<not> js_le (headway band) (Num 0)" using assms(3,4) by simp
  then have "bandBuses route (Num t) band out = depLoop band (Num d) (Num t) (Num s) out"
    using assms(1,5) by (simp add: bandBuses_def)
  also have "\<dots> = Some (foldl (\<lambda>acc dep. visit (Num t) (Num d) (Num dep) acc) out
                      (spec_departures s e h))"
    using assms(4,2,3) by (rule depLoop_positive)
  finally show ?thesis using d by (simp add: foldl_visit)
qed

lemma bandBuses_nonpositive:
  "headway band = Num h \<Longrightarrow> h \<le> 0 \<Longrightarrow> bandBuses route simTime band out = Some out"
  by (simp add: bandBuses_def)

lemma depLoop_NaN_dep: "depLoop band dur simTime NaN out = Some out"
  by (subst depLoop.simps) simp

lemma depLoop_NaN_end: "endSec band = NaN \<Longrightarrow> depLoop band dur simTime dep out = Some out"
  by (subst depLoop.simps) (cases dep; simp)

lemma depLoop_NaN_headway:
  assumes "headway band = NaN" "endSec band = Num e"
  shows "depLoop band dur simTime (Num s) out = Some (if s < e then visit simTime dur (Num s) out else out)"
  using assms by (subst depLoop.simps) (simp add: depLoop_NaN_dep)

lemma bandBuses_NaN_headway:
  assumes "headway band = NaN" "startSec band = Num s" "endSec band = Num e"
    and "dur_of route band = Num d"
  shows "bandBuses route (Num t) band out
       = Some (out @ (if s < e then spec_vehicles t d [s] else []))"
proof -
  from dur_of_Num [of route band] assms(4) have d: "d \<noteq> 0" by auto
  have "bandBuses route (Num t) band out = depLoop band (Num d) (Num t) (Num s) out"
    using assms by (simp add: bandBuses_def)
  then show ?thesis
    using assms(1,3) d by (simp add: depLoop_NaN_headway visit_Num)
qed

lemma bandBuses_NaN_window:
  "startSec band = NaN \<or> endSec band = NaN \<Longrightarrow> bandBuses route simTime band out = Some out"
  by (auto simp: bandBuses_def depLoop_NaN_dep depLoop_NaN_end)

lemma bandBuses_appends: "\<exists>vs. \<forall>out. bandBuses route (Num t) band out = Some (out @ vs)"
proof -
  obtain d where d: "dur_of route band = Num d" using dur_of_Num by blast
  show ?thesis
  proof (cases "headway band")
    case NaN
    show ?thesis
    proof (cases "startSec band")
      case (Num s)
      show ?thesis
      proof (cases "endSec band")
        case (Num e)
        from bandBuses_NaN_headway [OF NaN \<open>startSec band = Num s\<close> Num d]
        show ?thesis by blast
      next
        case NaN' : NaN
        then have "bandBuses route (Num t) band out = Some (out @ [])" for out
          using NaN by (simp add: bandBuses_def depLoop_NaN_end)
        then show ?thesis by blast
      qed
    next
      case NaN' : NaN
      then have "bandBuses route (Num t) band out = Some (out @ [])" for out
        using NaN by (simp add: bandBuses_def depLoop_NaN_dep)
      then show ?thesis by blast
    qed
  next
    case (Num h)
    show ?thesis
    proof (cases "0 < h")
      case False
      then have "bandBuses route (Num t) band out = Some (out @ [])" for out
        using Num by (simp add: bandBuses_def)
      then show ?thesis by blast
    next
      case True
      show ?thesis
      proof (cases "startSec band")
        case NaN
        then have "bandBuses route (Num t) band out = Some (out @ [])" for out
          by (simp add: bandBuses_def depLoop_NaN_dep)
        then show ?thesis by blast
      next
        case s: (Num s)
        show ?thesis
        proof (cases "endSec band")
          case NaN
          then have "bandBuses route (Num t) band out = Some (out @ [])" for out
            by (simp add: bandBuses_def depLoop_NaN_end)
          then show ?thesis by blast
        next
          case e: (Num e)
          from bandBuses_positive [OF s e Num True d] show ?thesis by blast
        qed
      qed
    qed
  qed
qed

lemma bandBuses_bandVehicles:
  "bandBuses route (Num t) band out = Some (out @ bandVehicles route (Num t) band)"
proof -
  obtain vs where vs: "\<And>out. bandBuses route (Num t) band out = Some (out @ vs)"
    using bandBuses_appends by blast
  have "bandVehicles route (Num t) band = vs"
    using vs [of "[]"] by (simp add: bandVehicles_def)
  then show ?thesis using vs by simp
qed

lemma forBands_concat:
  "forBands route (Num t) freqs out = Some (out @ concat (map (bandVehicles route (Num t)) freqs))"
  by (induction freqs arbitrary: out) (simp_all add: bandBuses_bandVehicles)

lemma activeBuses_concat:
  "frequencies route = Some freqs \<Longrightarrow>
   activeBuses route (Num t) = Some (concat (map (bandVehicles route (Num t)) freqs))"
  by (simp add: activeBuses_def forBands_concat)

lemma activeBuses_no_bands:
  "frequencies route = None \<or> frequencies route = Some [] \<Longrightarrow> activeBuses route simTime = Some []"
  by (auto simp: activeBuses_def)



lemma distinct_spec_departures: "0 < h \<Longrightarrow> distinct (spec_departures s e h)"
proof -
  assume h: "0 < h"
  have "inj (\<lambda>k::nat. s + real k * h)"
    using h by (auto simp: inj_on_def)
  then have "inj_on (\<lambda>k::nat. s + real k * h) (set [0..<nat \<lceil>(e - s) / h\<rceil>])"
    by (rule inj_on_subset) simp
  then show ?thesis
    unfolding spec_departures_def by (simp only: distinct_map distinct_upt simp_thms)
qed

lemma spec_departures_band0:
  "spec_departures 28800 32400 600 = [28800, 29400, 30000, 30600, 31200, 31800]"
  by (simp add: spec_departures_def upt_rec)

subsection \<open>Claim C1\<close>

text \<open>
  C1. For every route and simulated time \<open>t\<close>, \<open>activeBuses\<close> returns, and its result is
  the concatenation, in band order, of what each band contributes. A band with numeric
  \<open>startSec = s\<close>, \<open>endSec = e\<close> and \<open>headway = h > 0\<close> contributes exactly one vehicle
  for each departure \<open>dep\<close> of the sequence \<open>s, s + h, s + 2h, \<dots>\<close> with \<open>dep < e\<close> that
  satisfies \<open>0 \<le> t - dep \<le> d\<close>, with progress \<open>(t - dep) / d\<close>. The trip duration \<open>d\<close> is
  the band's own if present, else the route's, else 1800, where a value is present when
  it is truthy: \<open>0\<close> (and \<open>NaN\<close>, a missing field) falls through to the next default, so
  that \<open>d\<close> is never \<open>0\<close>. A route with no frequency bands has no vehicle at any time,
  and a band with \<open>headway \<le> 0\<close> leaves the list of vehicles as it was; so does a band
  whose \<open>startSec\<close> or \<open>endSec\<close> is \<open>NaN\<close>, which has no departure below \<open>endSec\<close>.
\<close>

theorem activeBuses_one_vehicle_per_departure:
  "(frequencies route = Some freqs \<longrightarrow>
      activeBuses route (Num t) = Some (concat (map (bandVehicles route (Num t)) freqs)))
   \<and> bandBuses route (Num t) band out = Some (out @ bandVehicles route (Num t) band)
   \<and> dur_of route band =
        (if truthy (tripDur band) then tripDur band
         else if truthy (tripDuration route) then tripDuration route
         else Num 1800)
   \<and> (\<exists>d. d \<noteq> 0 \<and> dur_of route band = Num d)
   \<and> (startSec band = Num s \<and> endSec band = Num e \<and> headway band = Num h \<and> 0 < h
        \<and> dur_of route band = Num d \<longrightarrow>
          bandVehicles route (Num t) band
            = map (\<lambda>dep. \<lparr>progress = Num ((t - dep) / d)\<rparr>)
                (filter (\<lambda>dep. 0 \<le> t - dep \<and> t - dep \<le> d) (spec_departures s e h))
          \<and> distinct (spec_departures s e h)
          \<and> (\<forall>dep. dep \<in> set (spec_departures s e h)
                 \<longleftrightarrow> (\<exists>k::nat. dep = s + real k * h \<and> dep < e)))
   \<and> (frequencies route = None \<or> frequencies route = Some [] \<longrightarrow>
        activeBuses route simTime = Some [])
   \<and> (headway band = Num h \<and> h \<le> 0 \<longrightarrow> bandBuses route simTime band out = Some out)
   \<and> (startSec band = NaN \<or> endSec band = NaN \<longrightarrow> bandBuses route simTime band out = Some out)"
proof -
  have pos: "bandVehicles route (Num t) band
            = map (\<lambda>dep. \<lparr>progress = Num ((t - dep) / d)\<rparr>)
                (filter (\<lambda>dep. 0 \<le> t - dep \<and> t - dep \<le> d) (spec_departures s e h))"
    if "startSec band = Num s" "endSec band = Num e" "headway band = Num h" "0 < h"
      "dur_of route band = Num d"
  proof -
    have "bandBuses route (Num t) band [] = Some ([] @ spec_vehicles t d (spec_departures s e h))"
      using that by (rule bandBuses_positive)
    then show ?thesis by (simp add: bandVehicles_def spec_vehicles_def)
  qed
  show ?thesis
    using pos activeBuses_concat [of route freqs t] bandBuses_bandVehicles [of route t band out]
      dur_of_cases [of route band] dur_of_Num [of route band] distinct_spec_departures [of h s e]
      in_spec_departures [of h _ s e] activeBuses_no_bands [of route simTime]
      bandBuses_nonpositive [of band h route simTime out]
      bandBuses_NaN_window [of band route simTime out]
    by blast
qed

theorem activeBuses_one_vehicle_per_departure_witness:
  "activeBuses route0 (Num 29700) = Some [\<lparr>progress = Num (1 / 2)\<rparr>, \<lparr>progress = Num (1 / 6)\<rparr>]
   \<and> bandVehicles route0 (Num 29700) band0 = [\<lparr>progress = Num (1 / 2)\<rparr>, \<lparr>progress = Num (1 / 6)\<rparr>]
   \<and> activeBuses (route0\<lparr>frequencies := Some []\<rparr>) (Num 29700) = Some []
   \<and> bandBuses route0 (Num 29700) (band0\<lparr>headway := Num 0\<rparr>) [] = Some []"
proof -
  have d: "dur_of route0 band0 = Num 1800"
    by (simp add: dur_of_def js_or_def band0_def)
  have b: "startSec band0 = Num 28800 \<and> endSec band0 = Num 32400 \<and> headway band0 = Num 600
           \<and> (0::real) < 600 \<and> dur_of route0 band0 = Num 1800"
    using d by (simp add: band0_def)
  have f: "frequencies route0 = Some [band0]" by (simp add: route0_def)
  from activeBuses_one_vehicle_per_departure [of route0 "[band0]" 29700 band0 "[]" 28800 32400 600 1800] b f
  have 1: "activeBuses route0 (Num 29700) = Some (concat (map (bandVehicles route0 (Num 29700)) [band0]))"
    and 2: "bandVehicles route0 (Num 29700) band0
            = map (\<lambda>dep. \<lparr>progress = Num ((29700 - dep) / 1800)\<rparr>)
                (filter (\<lambda>dep. 0 \<le> 29700 - dep \<and> 29700 - dep \<le> 1800) (spec_departures 28800 32400 600))"
    by blast+
  have 3: "bandVehicles route0 (Num 29700) band0 = [\<lparr>progress = Num (1 / 2)\<rparr>, \<lparr>progress = Num (1 / 6)\<rparr>]"
    unfolding 2 spec_departures_band0 by simp
  have 4: "activeBuses (route0\<lparr>frequencies := Some []\<rparr>) (Num 29700) = Some []"
    using activeBuses_one_vehicle_per_departure [of "route0\<lparr>frequencies := Some []\<rparr>" "[]" 0 band0 "[]" 0 0 0 0 "Num 29700"] by simp
  have 5: "bandBuses route0 (Num 29700) (band0\<lparr>headway := Num 0\<rparr>) [] = Some []"
    using activeBuses_one_vehicle_per_departure [of route0 "[]" 0 "band0\<lparr>headway := Num 0\<rparr>" "[]" 0 0 0 0 "Num 29700"] by simp
  show ?thesis using 1 3 4 5 by simp
qed

subsection \<open>Claim C2\<close>

lemma dur_of_band0: "dur_of route band0 = Num 1800"
  by (simp add: dur_of_def js_or_def band0_def)

lemma activeBuses_band0:
  assumes "frequencies route = Some [band0]"
  shows "activeBuses route (Num t) = Some (spec_vehicles t 1800 [28800, 29400, 30000, 30600, 31200, 31800])"
proof -
  have "bandBuses route (Num t) band0 [] = Some ([] @ spec_vehicles t 1800 (spec_departures 28800 32400 600))"
    by (rule bandBuses_positive [OF _ _ _ _ dur_of_band0]) (simp_all add: band0_def)
  then show ?thesis
    using assms by (simp add: activeBuses_def spec_departures_band0)
qed

text \<open>
  C2, as the code has it. For the band \<open>{startSec = 28800, endSec = 32400, headway = 600,
  tripDur = 1800}\<close> alone on a route: at \<open>t = 29100\<close> exactly one vehicle is active, and
  its progress is \<open>(29100 - 28800) / 1800 = 1/6\<close>; at \<open>t = 28799\<close> no vehicle is active,
  and the candidate \<open>dep = 28800\<close> pushes nothing; at \<open>t = 30900\<close> the candidate
  \<open>dep = 28800\<close> pushes nothing either (\<open>2100 > 1800\<close>), the three active vehicles being
  those of the departures 29400, 30000 and 30600.
\<close>

theorem band0_example:
  "frequencies route = Some [band0] \<longrightarrow>
     activeBuses route (Num 29100) = Some [\<lparr>progress = Num (1 / 6)\<rparr>]
     \<and> activeBuses route (Num 28799) = Some []
     \<and> visit (Num 28799) (dur_of route band0) (Num 28800) out = out
     \<and> activeBuses route (Num 30900)
         = Some [\<lparr>progress = Num (5 / 6)\<rparr>, \<lparr>progress = Num (1 / 2)\<rparr>, \<lparr>progress = Num (1 / 6)\<rparr>]
     \<and> visit (Num 30900) (dur_of route band0) (Num 28800) out = out"
  by (simp add: activeBuses_band0 spec_vehicles_def dur_of_band0 visit_def js_gt_def)

theorem band0_example_witness:
  "activeBuses route0 (Num 29100) = Some [\<lparr>progress = Num (1 / 6)\<rparr>]
   \<and> activeBuses route0 (Num 28799) = Some []
   \<and> activeBuses route0 (Num 30900)
       = Some [\<lparr>progress = Num (5 / 6)\<rparr>, \<lparr>progress = Num (1 / 2)\<rparr>, \<lparr>progress = Num (1 / 6)\<rparr>]"
  using band0_example [of route0 "[]"] by (simp add: route0_def)

text \<open>
  The claim gives the progress at \<open>t = 29100\<close> as \<open>0.5\<close>. The only vehicle active then
  has progress \<open>1/6\<close>.
\<close>

theorem band0_progress_counterexample:
  "activeBuses route0 (Num 29100) = Some [\<lparr>progress = Num (1 / 6)\<rparr>]
   \<and> activeBuses route0 (Num 29100) \<noteq> Some [\<lparr>progress = Num (1 / 2)\<rparr>]"
  by (simp add: activeBuses_band0 spec_vehicles_def route0_def)

section \<open>The clock driver: proofs\<close>

lemma advance_le_T_MAX: "advance dt prev \<le> T_MAX"
  by (simp add: advance_def Let_def T_MAX_def T_MIN_def)

lemma foldl_advance_le:
  "dts \<noteq> [] \<Longrightarrow> foldl (\<lambda>t dt. advance dt t) prev dts \<le> T_MAX"
proof (induction dts arbitrary: prev rule: rev_induct)
  case Nil
  then show ?case by simp
next
  case (snoc dt dts)
  show ?case by (simp add: advance_le_T_MAX)
qed

subsection \<open>Claim C8\<close>

text \<open>
  C8. One step of the clock takes \<open>prev\<close> to \<open>prev + dt * SIM_SPEED\<close> when that value does
  not exceed \<open>T_MAX = 26 * 3600\<close>, and to \<open>T_MIN = 5 * 3600\<close> when it does. So the value
  after a step is at most \<open>T_MAX\<close>, whatever the value before and the time delta, and
  so is the value after any non-empty sequence of steps; the animation step applies this
  update with \<open>dt = (ts - lastT) / 1000\<close> once a previous timestamp is known.
\<close>

theorem clock_wraps_at_T_MAX:
  "(prev + dt * SIM_SPEED \<le> T_MAX \<longrightarrow> advance dt prev = prev + dt * SIM_SPEED)
   \<and> (prev + dt * SIM_SPEED > T_MAX \<longrightarrow> advance dt prev = T_MIN)
   \<and> advance dt prev \<le> T_MAX
   \<and> (dts \<noteq> [] \<longrightarrow> foldl (\<lambda>t dt. advance dt t) prev dts \<le> T_MAX)
   \<and> (lastT c = Some l \<longrightarrow>
        simTime_now (step ts c) = advance ((ts - l) / 1000) (simTime_now c)
        \<and> simTime_now (step ts c) \<le> T_MAX)
   \<and> SIM_SPEED = 60 \<and> T_MIN = 5 * 3600 \<and> T_MAX = 26 * 3600"
  using advance_le_T_MAX foldl_advance_le [of dts prev]
  by (simp add: advance_def Let_def step_def SIM_SPEED_def T_MIN_def T_MAX_def)

theorem clock_wraps_at_T_MAX_witness:
  "advance 1 28800 = 28860 \<and> advance 1 93590 = 18000 \<and> advance 1 93540 = 93600
   \<and> foldl (\<lambda>t dt. advance dt t) 93540 [1, 1, 1] = 18060
   \<and> simTime_now (step 2000 \<lparr>lastT = Some 1000, simTime_now = 93590\<rparr>) = 18000"
proof -
  note w = clock_wraps_at_T_MAX
  have 1: "advance 1 28800 = 28860"
    using w [of 28800 1 "[]" "\<lparr>lastT = None, simTime_now = 0\<rparr>" 0 0]
    by (simp add: SIM_SPEED_def T_MAX_def)
  have 2: "advance 1 93590 = 18000"
    using w [of 93590 1 "[]" "\<lparr>lastT = None, simTime_now = 0\<rparr>" 0 0]
    by (simp add: SIM_SPEED_def T_MAX_def T_MIN_def)
  have 3: "advance 1 93540 = 93600"
    using w [of 93540 1 "[]" "\<lparr>lastT = None, simTime_now = 0\<rparr>" 0 0]
    by (simp add: SIM_SPEED_def T_MAX_def)
  have 4: "advance 1 93600 = 18000"
    using w [of 93600 1 "[]" "\<lparr>lastT = None, simTime_now = 0\<rparr>" 0 0]
    by (simp add: SIM_SPEED_def T_MAX_def T_MIN_def)
  have 5: "advance 1 18000 = 18060"
    using w [of 18000 1 "[]" "\<lparr>lastT = None, simTime_now = 0\<rparr>" 0 0]
    by (simp add: SIM_SPEED_def T_MAX_def T_MIN_def)
  have 6: "simTime_now (step 2000 \<lparr>lastT = Some 1000, simTime_now = 93590\<rparr>) = advance 1 93590"
    using w [of 0 0 "[]" "\<lparr>lastT = Some 1000, simTime_now = 93590\<rparr>" 1000 2000]
    by simp
  show ?thesis using 1 2 3 4 5 6 by simp
qed

section \<open>One frame of \<open>tick\<close>: proofs\<close>

lemma bandBuses_shapes: "bandBuses (route\<lparr>shapes := x\<rparr>) t band out = bandBuses route t band out"
  by (simp add: bandBuses_def dur_of_def)

lemma forBands_shapes: "forBands (route\<lparr>shapes := x\<rparr>) t freqs out = forBands route t freqs out"
  by (induction freqs arbitrary: out) (simp_all add: bandBuses_shapes split: option.splits)

lemma activeBuses_shapes: "activeBuses (route\<lparr>shapes := x\<rparr>) t = activeBuses route t"
  by (simp add: activeBuses_def forBands_shapes split: option.splits)

lemma eatenStops_first:
  "shapes route = sh # others \<Longrightarrow> eatenStops (route\<lparr>shapes := [sh]\<rparr>) p = eatenStops route p"
  by (simp add: eatenStops_def)

lemma busStep_first:
  "shapes route = sh # others \<Longrightarrow>
   busStep turf_along sel (route\<lparr>shapes := [sh]\<rparr>) ri g ab fr = busStep turf_along sel route ri g ab fr"
  by (simp add: busStep_def eatenStops_first Let_def split: option.splits)

lemma routeTick_first:
  "shapes route = sh # others \<Longrightarrow>
   routeTick turf_along sel t (route\<lparr>shapes := [sh]\<rparr>) ri geo fr = routeTick turf_along sel t route ri geo fr"
  by (simp add: routeTick_def activeBuses_shapes busStep_first split: option.splits)

lemma routeGeo_first:
  "shapes route = sh # others \<Longrightarrow> routeGeo turf_length (route\<lparr>shapes := [sh]\<rparr>) = routeGeo turf_length route"
  by (simp add: routeGeo_def)

lemma routeGeo_degenerate:
  assumes "shapes route = sh # others"
    and "length (coordinates sh) < 2 \<or> (\<exists>len. turf_length (coordinates sh) = Some (Num len) \<and> len \<le> 5 / 100)"
  shows "routeGeo turf_length route = None"
  using assms by (auto simp: routeGeo_def js_gt_def)

subsection \<open>Claim C9\<close>

text \<open>
  C9. A route whose first shape has fewer than 2 coordinate points, or whose first shape's
  line is at most 0.05 km long, has no entry in \<open>routeGeo\<close>; the frame's pass over such a
  route returns the frame as it was (no bus feature, no eaten stop, the same bus count),
  whatever the route's frequency bands and the simulated time, without even calling
  \<open>activeBuses\<close>. Only the first shape is read: replacing the route's shapes by the first
  one alone changes neither \<open>routeGeo\<close> nor the pass over the route.
\<close>

theorem degenerate_first_shape_no_vehicles:
  "(shapes route = sh # others
      \<and> (length (coordinates sh) < 2
          \<or> (\<exists>len. turf_length (coordinates sh) = Some (Num len) \<and> len \<le> 5 / 100))
      \<longrightarrow> routeGeo turf_length route = None)
   \<and> (routeGeo turf_length route = None \<longrightarrow>
        routeTick turf_along sel t route ri (routeGeo turf_length route) fr = Some fr
        \<and> forRoutes turf_along sel t ((route, ri, routeGeo turf_length route) # rest) fr
            = forRoutes turf_along sel t rest fr)
   \<and> (shapes route = sh # others \<longrightarrow>
        routeGeo turf_length (route\<lparr>shapes := [sh]\<rparr>) = routeGeo turf_length route
        \<and> routeTick turf_along sel t (route\<lparr>shapes := [sh]\<rparr>) ri geo fr
            = routeTick turf_along sel t route ri geo fr)"
  using routeGeo_degenerate [of route sh others turf_length]
    routeGeo_first [of route sh others turf_length]
    routeTick_first [of route sh others turf_along sel t ri geo fr]
  by (auto simp: routeTick_def)

theorem degenerate_first_shape_no_vehicles_witness:
  "routeGeo (\<lambda>cs. Some (Num 1)) route1 = None
   \<and> routeTick (\<lambda>cs km. Some ()) None (Num 29100) route1 0 (routeGeo (\<lambda>cs. Some (Num 1)) route1) frame0
       = Some frame0
   \<and> routeGeo (\<lambda>cs. Some (Num (1 / 100))) (route1\<lparr>shapes := [shape2]\<rparr>) = None
   \<and> routeTick (\<lambda>cs km. Some ()) None (Num 29100) (route1\<lparr>shapes := [shape1]\<rparr>) 0 None frame0
       = routeTick (\<lambda>cs km. Some ()) None (Num 29100) route1 0 None frame0"
proof -
  have s: "shapes route1 = shape1 # [shape2]" by (simp add: route1_def)
  have c: "length (coordinates shape1) < 2" by (simp add: shape1_def)
  have 1: "routeGeo (\<lambda>cs. Some (Num 1)) route1 = None"
    using degenerate_first_shape_no_vehicles [of route1 shape1 "[shape2]" "\<lambda>cs. Some (Num 1)"] s c
    by blast
  have 2: "routeTick (\<lambda>cs km. Some ()) None (Num 29100) route1 0 (routeGeo (\<lambda>cs. Some (Num 1)) route1) frame0
       = Some frame0"
    using degenerate_first_shape_no_vehicles [of route1 shape1 "[shape2]" "\<lambda>cs. Some (Num 1)"
        "\<lambda>cs km. Some ()" None "Num 29100" 0 frame0 "[]" None] 1
    by blast
  have s2: "shapes (route1\<lparr>shapes := [shape2]\<rparr>) = shape2 # []" by simp
  have l: "\<exists>len. (\<lambda>cs. Some (Num (1 / 100))) (coordinates shape2) = Some (Num len) \<and> len \<le> 5 / 100"
    by (rule exI [of _ "1 / 100"]) simp
  have 3: "routeGeo (\<lambda>cs. Some (Num (1 / 100))) (route1\<lparr>shapes := [shape2]\<rparr>) = None"
    using degenerate_first_shape_no_vehicles [of "route1\<lparr>shapes := [shape2]\<rparr>" shape2 "[]"
        "\<lambda>cs. Some (Num (1 / 100))"] s2 l
    by blast
  have 4: "routeTick (\<lambda>cs km. Some ()) None (Num 29100) (route1\<lparr>shapes := [shape1]\<rparr>) 0 None frame0
       = routeTick (\<lambda>cs km. Some ()) None (Num 29100) route1 0 None frame0"
    using degenerate_first_shape_no_vehicles [of route1 shape1 "[shape2]" "\<lambda>cs. Some (Num 1)"
        "\<lambda>cs km. Some ()" None "Num 29100" 0 frame0 "[]" None] s
    by blast
  show ?thesis using 1 2 3 4 by simp
qed

section \<open>The stop document: proofs\<close>

lemma fold_seen_inv:
  assumes step: "\<And>x st. seen_inv st \<Longrightarrow>
      seen_inv (f x st) \<and> fst (f x st) = fst st \<union> I x \<and> set (snd (f x st)) \<subseteq> set (snd st) \<union> E x"
    and "seen_inv st"
  shows "seen_inv (fold f xs st)
       \<and> fst (fold f xs st) = fst st \<union> (\<Union>x\<in>set xs. I x)
       \<and> set (snd (fold f xs st)) \<subseteq> set (snd st) \<union> (\<Union>x\<in>set xs. E x)"
  using assms(2)
proof (induction xs arbitrary: st)
  case Nil
  then show ?case by simp
next
  case (Cons x xs)
  note s = step [OF Cons.prems, of x]
  note ih = Cons.IH [OF s [THEN conjunct1]]
  have 1: "seen_inv (fold f (x # xs) st)"
    using ih by simp
  have 2: "fst (fold f (x # xs) st) = fst st \<union> (\<Union>x\<in>set (x # xs). I x)"
    using ih [THEN conjunct2, THEN conjunct1] s [THEN conjunct2, THEN conjunct1]
    by (simp add: Un_assoc)
  have 3: "set (snd (fold f (x # xs) st)) \<subseteq> set (snd st) \<union> (\<Union>x\<in>set (x # xs). E x)"
    using ih [THEN conjunct2, THEN conjunct2] s [THEN conjunct2, THEN conjunct2]
    by auto
  show ?case using 1 2 3 by blast
qed

lemma addStop_seen_inv:
  "seen_inv st \<Longrightarrow>
   seen_inv (addStop s st) \<and> fst (addStop s st) = fst st \<union> {id_stop s}
   \<and> set (snd (addStop s st)) \<subseteq> set (snd st) \<union> {s}"
  by (auto simp: addStop_def seen_inv_def)

lemma fold_addStop_seen_inv:
  "seen_inv st \<Longrightarrow>
   seen_inv (fold addStop ss st) \<and> fst (fold addStop ss st) = fst st \<union> id_stop ` set ss
   \<and> set (snd (fold addStop ss st)) \<subseteq> set (snd st) \<union> set ss"
  using fold_seen_inv [of addStop "\<lambda>s. {id_stop s}" "\<lambda>s. {s}" st ss, OF addStop_seen_inv]
  by auto

lemma fold_shapes_seen_inv:
  "seen_inv st \<Longrightarrow>
   seen_inv (fold (\<lambda>sh. fold addStop (stops sh)) shs st)
   \<and> fst (fold (\<lambda>sh. fold addStop (stops sh)) shs st)
       = fst st \<union> (\<Union>sh\<in>set shs. id_stop ` set (stops sh))
   \<and> set (snd (fold (\<lambda>sh. fold addStop (stops sh)) shs st))
       \<subseteq> set (snd st) \<union> (\<Union>sh\<in>set shs. set (stops sh))"
  by (rule fold_seen_inv [of "\<lambda>sh. fold addStop (stops sh)" "\<lambda>sh. id_stop ` set (stops sh)"
        "\<lambda>sh. set (stops sh)" st shs, OF fold_addStop_seen_inv])

lemma fold_routes_seen_inv:
  "seen_inv st \<Longrightarrow>
   seen_inv (fold (\<lambda>r. fold (\<lambda>sh. fold addStop (stops sh)) (shapes r)) rs st)
   \<and> fst (fold (\<lambda>r. fold (\<lambda>sh. fold addStop (stops sh)) (shapes r)) rs st)
       = fst st \<union> (\<Union>r\<in>set rs. \<Union>sh\<in>set (shapes r). id_stop ` set (stops sh))
   \<and> set (snd (fold (\<lambda>r. fold (\<lambda>sh. fold addStop (stops sh)) (shapes r)) rs st))
       \<subseteq> set (snd st) \<union> (\<Union>r\<in>set rs. \<Union>sh\<in>set (shapes r). set (stops sh))"
  by (rule fold_seen_inv [of "\<lambda>r. fold (\<lambda>sh. fold addStop (stops sh)) (shapes r)"
        "\<lambda>r. \<Union>sh\<in>set (shapes r). id_stop ` set (stops sh)"
        "\<lambda>r. \<Union>sh\<in>set (shapes r). set (stops sh)" st rs, OF fold_shapes_seen_inv])

lemma uniqueStops_ids:
  "distinct (map id_stop (uniqueStops rs))
   \<and> id_stop ` set (uniqueStops rs) = (\<Union>r\<in>set rs. \<Union>sh\<in>set (shapes r). id_stop ` set (stops sh))
   \<and> set (uniqueStops rs) \<subseteq> (\<Union>r\<in>set rs. \<Union>sh\<in>set (shapes r). set (stops sh))"
proof -
  let ?st = "fold (\<lambda>r. fold (\<lambda>sh. fold addStop (stops sh)) (shapes r)) rs ({}, [])"
  have "seen_inv ({}, [])" by (simp add: seen_inv_def)
  note r = fold_routes_seen_inv [OF this, of rs]
  note i = r [THEN conjunct1, unfolded seen_inv_def]
  note a = i [THEN conjunct1] and b = i [THEN conjunct2]
  note c = r [THEN conjunct2, THEN conjunct1]
  note d = r [THEN conjunct2, THEN conjunct2]
  have "id_stop ` set (snd ?st) = fst ?st" by (rule a [symmetric])
  also have "\<dots> = (\<Union>r\<in>set rs. \<Union>sh\<in>set (shapes r). id_stop ` set (stops sh))"
    unfolding c by simp
  finally have e: "id_stop ` set (uniqueStops rs)
      = (\<Union>r\<in>set rs. \<Union>sh\<in>set (shapes r). id_stop ` set (stops sh))"
    unfolding uniqueStops_def .
  have f: "set (uniqueStops rs) \<subseteq> (\<Union>r\<in>set rs. \<Union>sh\<in>set (shapes r). set (stops sh))"
    unfolding uniqueStops_def using d by simp
  have g: "distinct (map id_stop (uniqueStops rs))"
    unfolding uniqueStops_def by (rule b)
  show ?thesis by (intro conjI g e f)
qed

subsection \<open>Claim C7\<close>

text \<open>
  C7. The stop document holds no two records with the same stop id; for every stop in the
  stop list of a shape of an emitted route it holds a record with that stop's id; and
  every record of it is a stop of some shape of some emitted route.
\<close>

theorem uniqueStops_distinct_and_complete:
  "distinct (map id_stop (uniqueStops outputRoutes))
   \<and> (\<forall>r \<in> set outputRoutes. \<forall>sh \<in> set (shapes r). \<forall>s \<in> set (stops sh).
         \<exists>u \<in> set (uniqueStops outputRoutes). id_stop u = id_stop s)
   \<and> (\<forall>u \<in> set (uniqueStops outputRoutes).
         \<exists>r \<in> set outputRoutes. \<exists>sh \<in> set (shapes r). u \<in> set (stops sh))"
proof (intro conjI ballI)
  note u = uniqueStops_ids [of outputRoutes]
  show "distinct (map id_stop (uniqueStops outputRoutes))"
    by (rule u [THEN conjunct1])
next
  fix r sh s
  assume "r \<in> set outputRoutes" "sh \<in> set (shapes r)" "s \<in> set (stops sh)"
  then have "id_stop s \<in> (\<Union>r\<in>set outputRoutes. \<Union>sh\<in>set (shapes r). id_stop ` set (stops sh))"
    by blast
  then have "id_stop s \<in> id_stop ` set (uniqueStops outputRoutes)"
    by (simp only: uniqueStops_ids [of outputRoutes, THEN conjunct2, THEN conjunct1])
  then obtain u where "u \<in> set (uniqueStops outputRoutes)" "id_stop s = id_stop u"
    by (rule imageE)
  then show "\<exists>u \<in> set (uniqueStops outputRoutes). id_stop u = id_stop s"
    by (intro bexI [of _ u]) simp_all
next
  fix u
  assume "u \<in> set (uniqueStops outputRoutes)"
  with uniqueStops_ids [of outputRoutes, THEN conjunct2, THEN conjunct2]
  have "u \<in> (\<Union>r\<in>set outputRoutes. \<Union>sh\<in>set (shapes r). set (stops sh))"
    by (rule subsetD)
  then show "\<exists>r \<in> set outputRoutes. \<exists>sh \<in> set (shapes r). u \<in> set (stops sh)"
    by (simp only: UN_iff)
qed

theorem uniqueStops_distinct_and_complete_witness:
  "uniqueStops [route2, route2] = [stopA, stopB]
   \<and> distinct (map id_stop (uniqueStops [route2, route2]))
   \<and> (\<exists>u \<in> set (uniqueStops [route2, route2]). id_stop u = ''P2'')"
proof -
  have e: "uniqueStops [route2, route2] = [stopA, stopB]"
    by (simp add: uniqueStops_def route2_def route0_def shape2_def addStop_def stopA_def stopB_def)
  have m: "route2 \<in> set [route2, route2]"
    "shape2\<lparr>stops := [stopA, stopB]\<rparr> \<in> set (shapes route2)"
    "stopB \<in> set (stops (shape2\<lparr>stops := [stopA, stopB]\<rparr>))"
    by (simp_all add: route2_def)
  from uniqueStops_distinct_and_complete [of "[route2, route2]"] m
  have "distinct (map id_stop (uniqueStops [route2, route2]))"
    and "\<exists>u \<in> set (uniqueStops [route2, route2]). id_stop u = id_stop stopB"
    by blast+
  then show ?thesis using e by (simp add: stopB_def)
qed

section \<open>Simplifying a shape: proofs\<close>

lemma simplifyLoop_filter:
  "simplifyLoop pts stp i coords
   = coords @ map (\<lambda>i. coordOf (pts ! i))
       (filter (\<lambda>i. i = 0 \<or> i = length pts - 1 \<or> i mod stp = 0) [i..<length pts])"
proof (induction pts stp i coords rule: simplifyLoop.induct)
  case (1 pts stp i coords)
  show ?case
  proof (cases "i < length pts")
    case False
    then show ?thesis by (subst simplifyLoop.simps) simp
  next
    case True
    then have u: "[i..<length pts] = i # [i + 1..<length pts]"
      by (simp add: upt_conv_Cons)
    let ?keep = "i = 0 \<or> i = length pts - 1 \<or> i mod stp = 0"
    let ?coords = "if ?keep then coords @ [coordOf (pts ! i)] else coords"
    have "simplifyLoop pts stp i coords = simplifyLoop pts stp (i + 1) ?coords"
      by (subst simplifyLoop.simps) (simp only: True if_True)
    also have "\<dots> = ?coords @ map (\<lambda>i. coordOf (pts ! i))
        (filter (\<lambda>i. i = 0 \<or> i = length pts - 1 \<or> i mod stp = 0) [i + 1..<length pts])"
      by (rule "1.IH" [OF True])
    also have "\<dots> = coords @ map (\<lambda>i. coordOf (pts ! i))
        (filter (\<lambda>i. i = 0 \<or> i = length pts - 1 \<or> i mod stp = 0) [i..<length pts])"
      unfolding u by (cases ?keep) simp_all
    finally show ?thesis .
  qed
qed

lemma upt_ends: "2 \<le> n \<Longrightarrow> [0..<n] = 0 # [1..<n - 1] @ [n - 1]"
proof -
  assume n: "2 \<le> n"
  then have "[0..<n] = 0 # [1..<n]" by (simp add: upt_conv_Cons)
  moreover have "[1..<n] = [1..<Suc (n - 1)]" using n by simp
  moreover have "[1..<Suc (n - 1)] = [1..<n - 1] @ [n - 1]" using n by (simp only: upt_Suc) simp
  ultimately show ?thesis by simp
qed

lemma simplify_ends:
  assumes "2 \<le> length pts"
  shows "simplifyLoop pts stp 0 []
       = coordOf (hd pts)
         # map (\<lambda>i. coordOf (pts ! i)) (filter (\<lambda>i. i mod stp = 0) [1..<length pts - 1])
         @ [coordOf (last pts)]"
proof -
  have h: "pts ! 0 = hd pts" using assms by (cases pts) simp_all
  have l: "pts ! (length pts - 1) = last pts"
    using assms by (cases pts rule: rev_cases) simp_all
  have f: "filter (\<lambda>i. i = 0 \<or> i = length pts - 1 \<or> i mod stp = 0) [1..<length pts - 1]
         = filter (\<lambda>i. i mod stp = 0) [1..<length pts - 1]"
    by (rule filter_cong) auto
  show ?thesis
    unfolding simplifyLoop_filter upt_ends [OF assms]
    by (simp add: h l f del: upt_Suc One_nat_def)
qed

lemma round6_Num:
  "\<exists>y k. round6 (Num x) = Num y \<and> y = of_int k / 1000000 \<and> \<bar>y - x\<bar> \<le> 1 / 2000000"
proof -
  let ?k = "\<lfloor>x * 1000000 + 1 / 2\<rfloor>"
  have r: "round6 (Num x) = Num (of_int ?k / 1000000)"
    by (simp add: round6_def)
  have "of_int ?k \<le> x * 1000000 + 1 / 2" by (rule of_int_floor_le)
  moreover have "x * 1000000 + 1 / 2 < of_int ?k + 1" by linarith
  ultimately have "\<bar>of_int ?k - x * 1000000\<bar> \<le> 1 / 2" by linarith
  then have "\<bar>of_int ?k / 1000000 - x\<bar> \<le> 1 / 2000000"
    by (simp add: field_simps abs_le_iff)
  with r show ?thesis by blast
qed

subsection \<open>Claim C6\<close>

text \<open>
  C6. For a shape with at least 2 points, the simplified list is, in input order, the
  points at the indices \<open>i\<close> with \<open>i = 0\<close>, \<open>i = length - 1\<close> or \<open>i mod N = 0\<close>, where
  \<open>N\<close> is 3 for more than 200 points, 2 for more than 100 and 1 otherwise, each as the
  pair of its longitude and latitude rounded to 6 decimal places. So the list has at
  least 2 coordinates, its first is the rounded first point and its last the rounded last
  point. A rounded number is a multiple of \<open>10\<^sup>-\<^sup>6\<close> within \<open>5 \<sqdot> 10\<^sup>-\<^sup>7\<close> of the number; a
  coordinate that did not parse stays \<open>NaN\<close>. A shape with fewer than 2 points is skipped.
\<close>

theorem simplify_keeps_endpoints_and_stride:
  "(2 \<le> length pts \<longrightarrow>
      simplifyShape (Some pts)
        = Some (map (\<lambda>i. coordOf (pts ! i))
                 (filter (\<lambda>i. i = 0 \<or> i = length pts - 1 \<or> i mod stepOf (length pts) = 0)
                    [0..<length pts]))
      \<and> (\<exists>coords. simplifyShape (Some pts) = Some coords \<and> 2 \<le> length coords
            \<and> hd coords = coordOf (hd pts) \<and> last coords = coordOf (last pts)))
   \<and> (length pts < 2 \<longrightarrow> simplifyShape (Some pts) = None)
   \<and> stepOf (length pts) = (if length pts > 200 then 3 else if length pts > 100 then 2 else 1)
   \<and> coordOf p = (round6 (lon p), round6 (lat p))
   \<and> round6 NaN = NaN
   \<and> (\<exists>y k. round6 (Num x) = Num y \<and> y = of_int k / 1000000 \<and> \<bar>y - x\<bar> \<le> 1 / 2000000)"
proof -
  have 1: "simplifyShape (Some pts)
        = Some (map (\<lambda>i. coordOf (pts ! i))
                 (filter (\<lambda>i. i = 0 \<or> i = length pts - 1 \<or> i mod stepOf (length pts) = 0)
                    [0..<length pts]))" if "2 \<le> length pts"
    using that by (simp add: simplifyShape_def simplifyLoop_filter del: simplifyLoop.simps)
  have 2: "\<exists>coords. simplifyShape (Some pts) = Some coords \<and> 2 \<le> length coords
            \<and> hd coords = coordOf (hd pts) \<and> last coords = coordOf (last pts)"
    if "2 \<le> length pts"
    using that by (simp add: simplifyShape_def simplify_ends del: simplifyLoop.simps)
  have 3: "length pts < 2 \<longrightarrow> simplifyShape (Some pts) = None"
    by (simp add: simplifyShape_def)
  have 4: "round6 NaN = NaN" by (simp add: round6_def)
  show ?thesis
    using 1 2 3 4 round6_Num [of x] by (simp add: stepOf_def coordOf_def)
qed

theorem simplify_keeps_endpoints_and_stride_witness:
  "simplifyShape (Some pts3)
     = Some [(Num (-3.7038), Num 40.4168), (Num (-3.7), Num 40.42), (Num (-3.691234), NaN)]"
proof -
  have "(2::nat) \<le> length pts3" by (simp add: pts3_def)
  with simplify_keeps_endpoints_and_stride [of pts3]
  have "simplifyShape (Some pts3)
        = Some (map (\<lambda>i. coordOf (pts3 ! i))
                 (filter (\<lambda>i. i = 0 \<or> i = length pts3 - 1 \<or> i mod stepOf (length pts3) = 0)
                    [0..<length pts3]))"
    by blast
  also have "[0..<length pts3] = [0, 1, 2]" by (simp add: pts3_def upt_rec)
  finally show ?thesis
    by (simp add: pts3_def stepOf_def coordOf_def round6_def)
qed

section \<open>Merging the bands of a route: proofs\<close>

lemma js_lt_irrefl: "\<not> js_lt a a"
  by (cases a) simp_all

lemma js_lt_below: "js_lt a b \<Longrightarrow> \<not> js_lt c b \<Longrightarrow> \<not> js_lt c a"
  by (cases a; cases b; cases c) simp_all

lemma map_fst_assign:
  "map fst (assign k b merged) = (if k \<in> fst ` set merged then map fst merged else map fst merged @ [k])"
proof (induction merged)
  case Nil
  show ?case by simp
next
  case (Cons kb rest)
  obtain k' b' where kb: "kb = (k', b')" by (cases kb)
  show ?case
  proof (cases "k' = k")
    case True
    then show ?thesis by (simp add: kb)
  next
    case False
    then show ?thesis using Cons.IH by (simp add: kb)
  qed
qed

lemma set_assign_subset: "set (assign k b merged) \<subseteq> insert (k, b) (set merged)"
proof (induction merged)
  case Nil
  show ?case by simp
next
  case (Cons kb rest)
  obtain k' b' where kb: "kb = (k', b')" by (cases kb)
  show ?case using Cons.IH by (cases "k' = k") (auto simp: kb)
qed

lemma assign_key:
  "(k, b') \<in> set (assign k b merged) \<Longrightarrow> distinct (map fst merged) \<Longrightarrow> b' = b"
proof (induction merged)
  case Nil
  then show ?case by simp
next
  case (Cons kb rest)
  obtain k' b'' where kb: "kb = (k', b'')" by (cases kb)
  show ?case
  proof (cases "k' = k")
    case True
    with Cons.prems have "(k, b') = (k, b) \<or> (k, b') \<in> set rest" and "k \<notin> fst ` set rest"
      by (simp_all add: kb)
    then show ?thesis by (metis fst_conv image_eqI prod.inject)
  next
    case False
    with Cons.prems have "(k, b') \<in> set (assign k b rest)" and "distinct (map fst rest)"
      by (simp_all add: kb)
    then show ?thesis by (rule Cons.IH)
  qed
qed

lemma mergeStep_inv:
  assumes "merged_inv seen merged"
  shows "merged_inv (seen @ [b]) (mergeStep b merged)"
proof -
  from assms have d: "distinct (map fst merged)"
    and w: "window ` set seen = fst ` set merged"
    and e: "\<And>k m. (k, m) \<in> set merged \<Longrightarrow> window m = k \<and> m \<in> set seen
            \<and> (\<forall>b \<in> set seen. window b = k \<longrightarrow> \<not> js_lt (headway b) (headway m))"
    unfolding merged_inv_def by blast+
  show ?thesis
  proof (cases "map_of merged (window b)")
    case None
    then have nk: "window b \<notin> fst ` set merged" by (simp add: map_of_eq_None_iff)
    have s: "mergeStep b merged = assign (window b) b merged" by (simp add: mergeStep_def None)
    have 1: "distinct (map fst (assign (window b) b merged))"
      using d nk by (simp add: map_fst_assign)
    have 2: "window ` set (seen @ [b]) = fst ` set (assign (window b) b merged)"
      using w nk by (simp add: map_fst_assign [of "window b" b merged, THEN arg_cong [of _ _ set], simplified] insert_commute)
    have 3: "window m = k \<and> m \<in> set (seen @ [b])
            \<and> (\<forall>b' \<in> set (seen @ [b]). window b' = k \<longrightarrow> \<not> js_lt (headway b') (headway m))"
      if "(k, m) \<in> set (assign (window b) b merged)" for k m
    proof (cases "(k, m) = (window b, b)")
      case True
      have "window b' \<noteq> window b" if "b' \<in> set seen" for b'
        using that w nk by (metis imageI)
      with True show ?thesis by (auto simp: js_lt_irrefl)
    next
      case False
      with that set_assign_subset [of "window b" b merged] have "(k, m) \<in> set merged" by blast
      with e [OF this] nk show ?thesis by (auto simp: rev_image_eqI)
    qed
    show ?thesis unfolding merged_inv_def s using 1 2 3 by blast
  next
    case (Some m0)
    then have in0: "(window b, m0) \<in> set merged" by (rule map_of_SomeD)
    then have ik: "window b \<in> fst ` set merged" by (rule rev_image_eqI) simp
    show ?thesis
    proof (cases "js_lt (headway b) (headway m0)")
      case False
      then have s: "mergeStep b merged = merged" by (simp add: mergeStep_def Some)
      have 2: "window ` set (seen @ [b]) = fst ` set merged"
        using insert_absorb [OF ik] by (simp add: w)
      have 3: "window m = k \<and> m \<in> set (seen @ [b])
            \<and> (\<forall>b' \<in> set (seen @ [b]). window b' = k \<longrightarrow> \<not> js_lt (headway b') (headway m))"
        if "(k, m) \<in> set merged" for k m
      proof -
        have "m = m0" if "window b = k"
          using that \<open>(k, m) \<in> set merged\<close> in0 d by (auto dest: eq_key_imp_eq_value)
        with e [OF \<open>(k, m) \<in> set merged\<close>] False show ?thesis by auto
      qed
      show ?thesis unfolding merged_inv_def s using d 2 3 by blast
    next
      case True
      then have s: "mergeStep b merged = assign (window b) b merged" by (simp add: mergeStep_def Some)
      have 1: "distinct (map fst (assign (window b) b merged))"
        using d ik by (simp add: map_fst_assign)
      have "set (map fst (assign (window b) b merged)) = set (map fst merged)"
        using ik by (simp only: map_fst_assign if_True)
      then have 2: "window ` set (seen @ [b]) = fst ` set (assign (window b) b merged)"
        using insert_absorb [OF ik] by (simp add: w)
      have 3: "window m = k \<and> m \<in> set (seen @ [b])
            \<and> (\<forall>b' \<in> set (seen @ [b]). window b' = k \<longrightarrow> \<not> js_lt (headway b') (headway m))"
        if km: "(k, m) \<in> set (assign (window b) b merged)" for k m
      proof (cases "k = window b")
        case k: True
        with km d have m: "m = b" by (auto dest: assign_key)
        have "\<not> js_lt (headway b') (headway b)" if "b' \<in> set seen" "window b' = window b" for b'
        proof -
          from e [OF in0] that have "\<not> js_lt (headway b') (headway m0)" by blast
          with True show ?thesis by (rule js_lt_below)
        qed
        then show ?thesis using k m by (auto simp: js_lt_irrefl)
      next
        case False
        with km set_assign_subset [of "window b" b merged] have "(k, m) \<in> set merged" by blast
        with e [OF this] False show ?thesis by auto
      qed
      show ?thesis unfolding merged_inv_def s using 1 2 3 by blast
    qed
  qed
qed

lemma foldl_mergeStep_inv:
  "merged_inv seen merged \<Longrightarrow>
   merged_inv (seen @ bands) (foldl (\<lambda>merged b. mergeStep b merged) merged bands)"
proof (induction bands arbitrary: seen merged)
  case Nil
  then show ?case by simp
next
  case (Cons b bands)
  from Cons.IH [OF mergeStep_inv [OF Cons.prems, of b]] show ?case by simp
qed

lemma merged_inv_final:
  "merged_inv bands (foldl (\<lambda>merged b. mergeStep b merged) [] bands)"
  using foldl_mergeStep_inv [of "[]" "[]" bands] by (simp add: merged_inv_def)


lemma set_insertBand: "set (insertBand x ys) = insert x (set ys)"
  by (induction ys) auto

lemma set_sortBands: "set (sortBands bs) = set bs"
  by (induction bs) (simp_all add: sortBands_def set_insertBand)

lemma distinct_map_insertBand:
  "distinct (map f (insertBand x ys)) = (f x \<notin> f ` set ys \<and> distinct (map f ys))"
  by (induction ys) (auto simp: set_insertBand)

lemma distinct_map_sortBands: "distinct (map f (sortBands bs)) = distinct (map f bs)"
  by (induction bs) (simp_all add: sortBands_def distinct_map_insertBand set_sortBands [unfolded sortBands_def])

lemma sorted_insertBand:
  assumes "\<exists>s. startSec x = Num s" "\<forall>y \<in> set ys. \<exists>s. startSec y = Num s"
    and "sorted_wrt (\<lambda>a b. js_le (startSec a) (startSec b)) ys"
  shows "sorted_wrt (\<lambda>a b. js_le (startSec a) (startSec b)) (insertBand x ys)"
  using assms
proof (induction ys)
  case Nil
  show ?case by simp
next
  case (Cons y ys)
  obtain sx where sx: "startSec x = Num sx" using Cons.prems(1) by blast
  obtain sy where sy: "startSec y = Num sy" using Cons.prems(2) by auto
  show ?case
  proof (cases "js_gt (js_sub (startSec x) (startSec y)) (Num 0)")
    case True
    then have le: "js_le (startSec y) (startSec x)" by (simp add: sx sy js_gt_def)
    have ih: "sorted_wrt (\<lambda>a b. js_le (startSec a) (startSec b)) (insertBand x ys)"
      using Cons.prems by (intro Cons.IH) simp_all
    have "\<forall>z \<in> set (insertBand x ys). js_le (startSec y) (startSec z)"
      using Cons.prems(3) le by (simp add: set_insertBand)
    with ih True show ?thesis by simp
  next
    case False
    then have le: "js_le (startSec x) (startSec y)" by (simp add: sx sy js_gt_def)
    have "js_le (startSec x) (startSec z)" if "z \<in> set ys" for z
    proof -
      from Cons.prems(2) that obtain sz where sz: "startSec z = Num sz" by auto
      from Cons.prems(3) that have "js_le (startSec y) (startSec z)" by simp
      with le show ?thesis by (simp add: sx sy sz)
    qed
    with le False Cons.prems(3) show ?thesis by simp
  qed
qed

lemma sorted_sortBands:
  "\<forall>b \<in> set bs. \<exists>s. startSec b = Num s \<Longrightarrow>
   sorted_wrt (\<lambda>a b. js_le (startSec a) (startSec b)) (sortBands bs)"
proof (induction bs)
  case Nil
  show ?case by (simp add: sortBands_def)
next
  case (Cons b bs)
  then have "sorted_wrt (\<lambda>a b. js_le (startSec a) (startSec b)) (sortBands bs)" by simp
  moreover have "\<forall>y \<in> set (sortBands bs). \<exists>s. startSec y = Num s"
    using Cons.prems by (simp add: set_sortBands)
  moreover have "\<exists>s. startSec b = Num s" using Cons.prems by simp
  ultimately have "sorted_wrt (\<lambda>a b. js_le (startSec a) (startSec b)) (insertBand b (sortBands bs))"
    by (intro sorted_insertBand)
  then show ?case by (simp add: sortBands_def)
qed

lemma mergeBands_facts:
  "distinct (map window (mergeBands bands))
   \<and> window ` set (mergeBands bands) = window ` set bands
   \<and> set (mergeBands bands) \<subseteq> set bands
   \<and> (\<forall>m \<in> set (mergeBands bands). \<forall>b \<in> set bands.
         window b = window m \<longrightarrow> \<not> js_lt (headway b) (headway m))"
proof -
  let ?merged = "foldl (\<lambda>merged b. mergeStep b merged) [] bands"
  note inv = merged_inv_final [of bands, unfolded merged_inv_def]
  note d = inv [THEN conjunct1] and w = inv [THEN conjunct2, THEN conjunct1]
    and e = inv [THEN conjunct2, THEN conjunct2]
  have k: "map window (map snd ?merged) = map fst ?merged"
    using e by (auto simp: map_eq_conv)
  have 1: "distinct (map window (mergeBands bands))"
    unfolding mergeBands_def distinct_map_sortBands k by (rule d)
  have "window ` set (map snd ?merged) = set (map window (map snd ?merged))"
    by (simp only: set_map)
  also have "\<dots> = fst ` set ?merged" unfolding k by simp
  finally have 2: "window ` set (mergeBands bands) = window ` set bands"
    unfolding mergeBands_def set_sortBands w .
  have 3: "m \<in> set bands \<and> (\<forall>b \<in> set bands. window b = window m \<longrightarrow> \<not> js_lt (headway b) (headway m))"
    if "m \<in> set (mergeBands bands)" for m
  proof -
    from that obtain k where "(k, m) \<in> set ?merged"
      unfolding mergeBands_def set_sortBands by auto
    with e show ?thesis by blast
  qed
  show ?thesis using 1 2 3 by blast
qed

subsection \<open>Claim C5\<close>

text \<open>
  C5, as the code has it. After merging, the band list of a route holds at most one band
  for each \<open>(startSec, endSec)\<close> window, one for every window of the input, and every band
  of it is one of the input bands. When the input bands of a window all have a numeric
  headway, the band kept for that window has the least of these headways. When every
  input band has a numeric \<open>startSec\<close>, the list is in ascending order of \<open>startSec\<close>.
\<close>

theorem mergeBands_min_headway_per_window:
  "distinct (map window (mergeBands bands))
   \<and> window ` set (mergeBands bands) = window ` set bands
   \<and> set (mergeBands bands) \<subseteq> set bands
   \<and> (\<forall>m \<in> set (mergeBands bands).
         (\<forall>b \<in> set bands. window b = window m \<longrightarrow> (\<exists>h. headway b = Num h)) \<longrightarrow>
         (\<forall>b \<in> set bands. window b = window m \<longrightarrow> js_le (headway m) (headway b)))
   \<and> ((\<forall>b \<in> set bands. \<exists>s. startSec b = Num s) \<longrightarrow>
        sorted_wrt (\<lambda>a b. js_le (startSec a) (startSec b)) (mergeBands bands))"
proof -
  note f = mergeBands_facts [of bands]
  have 4: "js_le (headway m) (headway b)"
    if m: "m \<in> set (mergeBands bands)"
      and n: "\<forall>b \<in> set bands. window b = window m \<longrightarrow> (\<exists>h. headway b = Num h)"
      and b: "b \<in> set bands" "window b = window m" for m b
  proof -
    from f m have mb: "m \<in> set bands" by blast
    from n mb obtain hm where hm: "headway m = Num hm" by blast
    from n b obtain hb where hb: "headway b = Num hb" by blast
    from f m b have "\<not> js_lt (headway b) (headway m)" by blast
    then show ?thesis by (simp add: hm hb)
  qed
  have 5: "sorted_wrt (\<lambda>a b. js_le (startSec a) (startSec b)) (mergeBands bands)"
    if "\<forall>b \<in> set bands. \<exists>s. startSec b = Num s"
  proof -
    let ?merged = "foldl (\<lambda>merged b. mergeStep b merged) [] bands"
    have "set (map snd ?merged) \<subseteq> set bands"
      using f unfolding mergeBands_def set_sortBands by blast
    with that have "\<forall>b \<in> set (map snd ?merged). \<exists>s. startSec b = Num s" by blast
    then show ?thesis unfolding mergeBands_def by (rule sorted_sortBands)
  qed
  show ?thesis using f 4 5 by blast
qed

theorem mergeBands_min_headway_per_window_witness:
  "mergeBands [band0, bandEarly, band0\<lparr>headway := Num 300\<rparr>] = [bandEarly, band0\<lparr>headway := Num 300\<rparr>]
   \<and> distinct (map window (mergeBands [band0, bandEarly, band0\<lparr>headway := Num 300\<rparr>]))
   \<and> js_le (headway (band0\<lparr>headway := Num 300\<rparr>)) (headway band0)
   \<and> sorted_wrt (\<lambda>a b. js_le (startSec a) (startSec b))
        (mergeBands [band0, bandEarly, band0\<lparr>headway := Num 300\<rparr>])"
proof -
  let ?bands = "[band0, bandEarly, band0\<lparr>headway := Num 300\<rparr>]"
  have e: "mergeBands ?bands = [bandEarly, band0\<lparr>headway := Num 300\<rparr>]"
    by (simp add: mergeBands_def mergeStep_def sortBands_def window_def band0_def bandEarly_def js_gt_def)
  have m: "band0\<lparr>headway := Num 300\<rparr> \<in> set (mergeBands ?bands)" by (simp add: e)
  have n: "\<forall>b \<in> set ?bands. window b = window (band0\<lparr>headway := Num 300\<rparr>) \<longrightarrow> (\<exists>h. headway b = Num h)"
    by (simp add: band0_def bandEarly_def)
  have s: "\<forall>b \<in> set ?bands. \<exists>s. startSec b = Num s"
    by (simp add: band0_def bandEarly_def)
  have b: "band0 \<in> set ?bands" "window band0 = window (band0\<lparr>headway := Num 300\<rparr>)"
    by (simp_all add: window_def)
  from mergeBands_min_headway_per_window [of ?bands] m n s b
  have "distinct (map window (mergeBands ?bands))"
    and "js_le (headway (band0\<lparr>headway := Num 300\<rparr>)) (headway band0)"
    and "sorted_wrt (\<lambda>a b. js_le (startSec a) (startSec b)) (mergeBands ?bands)"
    by blast+
  with e show ?thesis by simp
qed

text \<open>
  The claim says the same of every input. A headway that did not parse is \<open>NaN\<close>, and
  \<open>b.headway < merged[key].headway\<close> is false whenever one side is \<open>NaN\<close>: a first band
  with headway \<open>NaN\<close> is kept although a later band of the same window has headway 600.
\<close>

theorem mergeBands_NaN_headway_counterexample:
  "mergeBands [band0\<lparr>headway := NaN\<rparr>, band0] = [band0\<lparr>headway := NaN\<rparr>]
   \<and> window (band0\<lparr>headway := NaN\<rparr>) = window band0
   \<and> headway band0 = Num 600
   \<and> headway (band0\<lparr>headway := NaN\<rparr>) \<noteq> Num 600
   \<and> \<not> js_le (headway (band0\<lparr>headway := NaN\<rparr>)) (headway band0)"
  by (simp add: mergeBands_def mergeStep_def sortBands_def window_def band0_def)


section \<open>Frequencies: proofs\<close>

lemma collected_upd:
  "collected (rf(r \<mapsto> bs)) rid = (if rid = r then bs else collected rf rid)"
  by (simp add: collected_def)

lemma addFreq_collected:
  assumes "addFreq parseInt Number tripRoute tripStops f rf = Inr rf'" "rid \<noteq> []"
  shows "\<exists>td. collected rf' rid
           = collected rf rid
             @ (if tripRoute (trip_id f) = Some rid then [bandOfRow parseInt Number td f] else [])"
proof (cases "tripRoute (trip_id f)")
  case None
  with assms show ?thesis by (simp add: addFreq_def)
next
  case (Some r)
  show ?thesis
  proof (cases "r = []")
    case True
    with assms Some show ?thesis by (auto simp: addFreq_def)
  next
    case False
    with assms(1) Some obtain td where td: "tripDurOf tripStops (trip_id f) = Inr td"
      and rf': "rf' = rf(r \<mapsto> collected rf r @ [bandOfRow parseInt Number td f])"
      by (auto simp: addFreq_def collected_def Let_def split: sum.splits)
    show ?thesis
      by (rule exI [of _ td]) (simp add: rf' Some collected_upd)
  qed
qed

lemma collectFreqs_collected:
  assumes "collectFreqs parseInt Number tripRoute tripStops rows rf = Inr rf'" "rid \<noteq> []"
  shows "\<exists>tds. length tds = length (filter (\<lambda>f. tripRoute (trip_id f) = Some rid) rows)
           \<and> collected rf' rid
               = collected rf rid
                 @ map2 (bandOfRow parseInt Number) tds
                     (filter (\<lambda>f. tripRoute (trip_id f) = Some rid) rows)"
  using assms(1)
proof (induction rows arbitrary: rf)
  case Nil
  then show ?case by simp
next
  case (Cons f rows)
  from Cons.prems obtain rf1 where 1: "addFreq parseInt Number tripRoute tripStops f rf = Inr rf1"
    and 2: "collectFreqs parseInt Number tripRoute tripStops rows rf1 = Inr rf'"
    by (auto split: sum.splits)
  from addFreq_collected [OF 1 assms(2)] obtain td where td: "collected rf1 rid
           = collected rf rid
             @ (if tripRoute (trip_id f) = Some rid then [bandOfRow parseInt Number td f] else [])"
    by blast
  from Cons.IH [OF 2] obtain tds
    where l: "length tds = length (filter (\<lambda>f. tripRoute (trip_id f) = Some rid) rows)"
      and c: "collected rf' rid = collected rf1 rid
                 @ map2 (bandOfRow parseInt Number) tds
                     (filter (\<lambda>f. tripRoute (trip_id f) = Some rid) rows)"
    by blast
  show ?case
  proof (cases "tripRoute (trip_id f) = Some rid")
    case True
    show ?thesis
      by (rule exI [of _ "td # tds"]) (simp add: True l c td)
  next
    case False
    show ?thesis
      by (rule exI [of _ tds]) (simp add: False l c td)
  qed
qed

lemma map2_bandOfRow:
  assumes "length tds = length rows"
  shows "map headway (map2 (bandOfRow parseInt Number) tds rows) = map (\<lambda>f. parseInt (headway_secs f)) rows"
    and "map startSec (map2 (bandOfRow parseInt Number) tds rows)
         = map (\<lambda>f. timeToSec Number (start_time f)) rows"
    and "map endSec (map2 (bandOfRow parseInt Number) tds rows)
         = map (\<lambda>f. timeToSec Number (end_time f)) rows"
  using assms by (induction tds rows rule: list_induct2) (simp_all add: bandOfRow_def)

lemma collectFreqs_returns:
  assumes "\<forall>tid. tripStops tid \<noteq> Some []"
  shows "\<exists>rf'. collectFreqs parseInt Number tripRoute tripStops rows rf = Inr rf'"
proof (induction rows arbitrary: rf)
  case Nil
  show ?case by simp
next
  case (Cons f rows)
  have "\<exists>td. tripDurOf tripStops tid = Inr td" for tid
    using assms by (cases "tripStops tid") (auto simp: tripDurOf_def)
  then obtain td where "tripDurOf tripStops (trip_id f) = Inr td" by blast
  then have "\<exists>rf1. addFreq parseInt Number tripRoute tripStops f rf = Inr rf1"
    by (simp add: addFreq_def Let_def split: option.splits)
  then obtain rf1 where "addFreq parseInt Number tripRoute tripStops f rf = Inr rf1" by blast
  with Cons.IH [of rf1] show ?case by simp
qed

lemma emittedFrequencies_mergeBands:
  assumes "emittedFrequencies parseInt Number tripRoute tripStops freqRaw rid = Inr bands"
  shows "\<exists>rf. collectFreqs parseInt Number tripRoute tripStops freqRaw Map.empty = Inr rf
           \<and> bands = mergeBands (collected rf rid)"
proof -
  from assms obtain rf where rf: "collectFreqs parseInt Number tripRoute tripStops freqRaw Map.empty = Inr rf"
    and b: "bands = (case mergeAll rf rid of None \<Rightarrow> [] | Some bs \<Rightarrow> bs)"
    by (auto simp: emittedFrequencies_def split: sum.splits)
  have "mergeBands [] = []" by (simp add: mergeBands_def sortBands_def)
  then have "bands = mergeBands (collected rf rid)"
    by (simp add: b mergeAll_def collected_def split: option.splits)
  with rf show ?thesis by blast
qed

lemma timeToSec_examples:
  "timeToSec decimal ''08:00:00'' = Num 28800"
  "timeToSec decimal ''09:00:00'' = Num 32400"
  "timeToSec decimal ''10:00:00'' = Num 36000"
  by (simp_all add: timeToSec_def at_index_def decimal_def digit_val_def js_or_def)

lemma decimal_examples:
  "decimal ''0'' = Num 0" "decimal ''abc'' = NaN" "decimal ''600'' = Num 600"
  by (simp_all add: decimal_def digit_val_def)

subsection \<open>Claim C3\<close>

text \<open>
  C3, as the code has it. The preprocessor makes no test on the headway. Unless a trip has
  an empty stop list the collection returns; the bands collected for a route are, in row
  order, one for each row of \<open>frequencies.txt\<close> whose trip belongs to that route, with
  headway \<open>parseInt(headway_secs)\<close> whatever that value is, and with the row's start and
  end times; the bands emitted for the route are these bands merged, which keeps a band
  of every window, and keeps a band that is alone in its window. So an emitted band may
  have a headway that is zero, negative or \<open>NaN\<close>; it is \<open>activeBuses\<close> that skips a band
  whose headway is not positive.
\<close>

theorem frequencies_rows_not_filtered_by_headway:
  "((\<forall>tid. tripStops tid \<noteq> Some []) \<longrightarrow>
      (\<exists>bands. emittedFrequencies parseInt Number tripRoute tripStops freqRaw rid = Inr bands))
   \<and> (emittedFrequencies parseInt Number tripRoute tripStops freqRaw rid = Inr bands \<and> rid \<noteq> [] \<longrightarrow>
        (\<exists>coll. bands = mergeBands coll
           \<and> map headway coll
               = map (\<lambda>f. parseInt (headway_secs f))
                   (filter (\<lambda>f. tripRoute (trip_id f) = Some rid) freqRaw)
           \<and> map startSec coll
               = map (\<lambda>f. timeToSec Number (start_time f))
                   (filter (\<lambda>f. tripRoute (trip_id f) = Some rid) freqRaw)
           \<and> map endSec coll
               = map (\<lambda>f. timeToSec Number (end_time f))
                   (filter (\<lambda>f. tripRoute (trip_id f) = Some rid) freqRaw)
           \<and> window ` set bands = window ` set coll
           \<and> set bands \<subseteq> set coll
           \<and> (\<forall>b \<in> set coll. (\<forall>b' \<in> set coll. window b' = window b \<longrightarrow> b' = b) \<longrightarrow> b \<in> set bands)))
   \<and> (headway band = Num h \<and> h \<le> 0 \<longrightarrow> bandBuses route simTime band out = Some out)"
proof (intro conjI impI)
  assume "\<forall>tid. tripStops tid \<noteq> Some []"
  from collectFreqs_returns [OF this, of parseInt Number tripRoute freqRaw Map.empty]
  show "\<exists>bands. emittedFrequencies parseInt Number tripRoute tripStops freqRaw rid = Inr bands"
    by (auto simp: emittedFrequencies_def)
next
  let ?rows = "filter (\<lambda>f. tripRoute (trip_id f) = Some rid) freqRaw"
  assume a: "emittedFrequencies parseInt Number tripRoute tripStops freqRaw rid = Inr bands \<and> rid \<noteq> []"
  from emittedFrequencies_mergeBands [of parseInt Number tripRoute tripStops freqRaw rid bands] a
  obtain rf where rf: "collectFreqs parseInt Number tripRoute tripStops freqRaw Map.empty = Inr rf"
    and b: "bands = mergeBands (collected rf rid)"
    by blast
  from collectFreqs_collected [OF rf, of rid] a
  obtain tds where l: "length tds = length ?rows"
    and c: "collected rf rid = map2 (bandOfRow parseInt Number) tds ?rows"
    by (auto simp: collected_def)
  let ?coll = "collected rf rid"
  have h: "map headway ?coll = map (\<lambda>f. parseInt (headway_secs f)) ?rows"
    unfolding c using l by (simp only: map2_bandOfRow)
  have s: "map startSec ?coll = map (\<lambda>f. timeToSec Number (start_time f)) ?rows"
    unfolding c using l by (simp only: map2_bandOfRow)
  have e: "map endSec ?coll = map (\<lambda>f. timeToSec Number (end_time f)) ?rows"
    unfolding c using l by (simp only: map2_bandOfRow)
  note f = mergeBands_facts [of ?coll]
  have w: "window ` set bands = window ` set ?coll" unfolding b by (rule f [THEN conjunct2, THEN conjunct1])
  have sub: "set bands \<subseteq> set ?coll" unfolding b by (rule f [THEN conjunct2, THEN conjunct2, THEN conjunct1])
  have alone: "x \<in> set bands"
    if x: "x \<in> set ?coll" and u: "\<forall>b' \<in> set ?coll. window b' = window x \<longrightarrow> b' = x" for x
  proof -
    from x have "window x \<in> window ` set bands" unfolding w by (rule imageI)
    then obtain m where m: "m \<in> set bands" "window x = window m" by (rule imageE)
    with sub u have "m = x" by (metis subsetD)
    with m show ?thesis by simp
  qed
  show "\<exists>coll. bands = mergeBands coll
           \<and> map headway coll = map (\<lambda>f. parseInt (headway_secs f)) ?rows
           \<and> map startSec coll = map (\<lambda>f. timeToSec Number (start_time f)) ?rows
           \<and> map endSec coll = map (\<lambda>f. timeToSec Number (end_time f)) ?rows
           \<and> window ` set bands = window ` set coll
           \<and> set bands \<subseteq> set coll
           \<and> (\<forall>b \<in> set coll. (\<forall>b' \<in> set coll. window b' = window b \<longrightarrow> b' = b) \<longrightarrow> b \<in> set bands)"
    using b h s e w sub alone by (intro exI [of _ ?coll]) blast
next
  assume "headway band = Num h \<and> h \<le> 0"
  then show "bandBuses route simTime band out = Some out"
    by (simp add: bandBuses_nonpositive)
qed

theorem frequencies_rows_not_filtered_by_headway_witness:
  "\<exists>coll. emittedFrequencies decimal decimal tripRoute0 Map.empty rows0 ''R1'' = Inr (mergeBands coll)
      \<and> map headway coll = [Num 0, NaN]
      \<and> map startSec coll = [Num 28800, Num 32400]
      \<and> map endSec coll = [Num 32400, Num 36000]"
proof -
  have t: "\<forall>tid. (Map.empty :: string \<rightharpoonup> trip_stop list) tid \<noteq> Some []" by simp
  note w = frequencies_rows_not_filtered_by_headway [of Map.empty decimal decimal tripRoute0 rows0 "''R1''"]
  from w t obtain bands
    where b: "emittedFrequencies decimal decimal tripRoute0 Map.empty rows0 ''R1'' = Inr bands"
    by blast
  have r: "filter (\<lambda>f. tripRoute0 (trip_id f) = Some ''R1'') rows0 = take 2 rows0"
    by (simp add: rows0_def tripRoute0_def)
  from frequencies_rows_not_filtered_by_headway [of Map.empty decimal decimal tripRoute0 rows0 "''R1''" bands,
      THEN conjunct2, THEN conjunct1] b
  obtain coll where "bands = mergeBands coll"
    and "map headway coll = map (\<lambda>f. decimal (headway_secs f)) (take 2 rows0)"
    and "map startSec coll = map (\<lambda>f. timeToSec decimal (start_time f)) (take 2 rows0)"
    and "map endSec coll = map (\<lambda>f. timeToSec decimal (end_time f)) (take 2 rows0)"
    unfolding r by auto
  then show ?thesis
    using b by (intro exI [of _ coll]) (simp add: rows0_def timeToSec_examples decimal_examples)
qed


text \<open>
  The claim says that a row whose headway is not positive or does not parse is left out.
  A row with headway \<open>0\<close> and a row with headway \<open>abc\<close> both give an emitted band.
\<close>

theorem nonpositive_headway_emitted_counterexample:
  "emittedFrequencies decimal decimal tripRoute0 Map.empty rows0 ''R1''
     = Inr [\<lparr>startSec = Num 28800, endSec = Num 32400, headway = Num 0, tripDur = Num 1800\<rparr>,
            \<lparr>startSec = Num 32400, endSec = Num 36000, headway = NaN, tripDur = Num 1800\<rparr>]
   \<and> \<not> js_gt (Num 0) (Num 0) \<and> \<not> js_gt NaN (Num 0)"
  by (simp add: emittedFrequencies_def rows0_def tripRoute0_def addFreq_def tripDurOf_def
      bandOfRow_def timeToSec_examples decimal_examples mergeAll_def mergeBands_def mergeStep_def
      sortBands_def window_def js_gt_def)

subsection \<open>Claim C4\<close>

text \<open>
  C4. The claim gives 1800 seconds to a trip with fewer than 2 timed stops. For a trip with
  exactly one stop time the code computes the difference of that stop's arrival with
  itself, which is 0, and emits the band with trip duration 0; it gives 1800 only to a
  trip with no stop time at all. (With two stop times the duration is the difference of
  the last and the first arrival, as the claim says.)
\<close>

theorem tripDur_single_stop_is_zero:
  "tripDurOf oneStop ''T1'' = Inr (Num 0)
   \<and> emittedFrequencies decimal decimal tripRoute0 oneStop [row600] ''R1''
       = Inr [\<lparr>startSec = Num 28800, endSec = Num 32400, headway = Num 600, tripDur = Num 0\<rparr>]
   \<and> tripDurOf twoStops ''T1'' = Inr (Num 1200)
   \<and> tripDurOf Map.empty ''T1'' = Inr (Num 1800)"
  by (simp add: emittedFrequencies_def row600_def tripRoute0_def oneStop_def twoStops_def addFreq_def
      tripDurOf_def bandOfRow_def timeToSec_examples decimal_examples mergeAll_def mergeBands_def
      mergeStep_def sortBands_def window_def)

section \<open>A headway that did not parse, from the preprocessor to the engine: proofs\<close>

lemma bandVehicles_NaN_headway:
  assumes "headway band = NaN" "startSec band = Num s" "endSec band = Num e"
    and "dur_of route band = Num d"
  shows "bandVehicles route (Num t) band
       = (if s < e \<and> 0 \<le> t - s \<and> t - s \<le> d then [\<lparr>progress = Num ((t - s) / d)\<rparr>] else [])"
  using bandBuses_NaN_headway [OF assms, of t "[]"]
  by (simp add: bandVehicles_def spec_vehicles_def)

lemma json_band_NaN_headway: "headway band = NaN \<Longrightarrow> headway (json_band band) = Num 0"
  by (simp add: json_band_def json_number_def)

lemma bandBuses_json_NaN_headway:
  "headway band = NaN \<Longrightarrow> bandBuses route simTime (json_band band) out = Some out"
  by (rule bandBuses_nonpositive [of _ 0]) (simp_all add: json_band_NaN_headway)

lemma forBands_json_NaN_headways:
  "\<forall>b \<in> set freqs. headway b = NaN \<Longrightarrow>
   forBands route simTime (map json_band freqs) out = Some out"
  by (induction freqs arbitrary: out) (simp_all add: bandBuses_json_NaN_headway)

lemma activeBuses_json_NaN_headways:
  assumes "frequencies route = Some freqs" "\<forall>b \<in> set freqs. headway b = NaN"
  shows "activeBuses (json_route route) simTime = Some []"
proof -
  have "forBands (json_route route) simTime (map json_band freqs) [] = Some []"
    using assms(2) by (rule forBands_json_NaN_headways)
  then show ?thesis using assms(1) by (simp add: activeBuses_def json_route_def)
qed

subsection \<open>Claim C10\<close>

text \<open>
  C10, as the code has it. \<open>activeBuses\<close> returns the concatenation of what each band
  contributes. A band whose headway is \<open>NaN\<close> when \<open>activeBuses\<close> reads it is not skipped
  by the guard \<open>headway <= 0\<close>; with numeric \<open>startSec = s\<close> and \<open>endSec = e\<close> its
  departure loop runs its body once, at \<open>dep = s\<close>, when \<open>s < e\<close> (the next \<open>dep\<close> is
  \<open>NaN\<close>, which ends the loop) and not at all otherwise, so that it contributes one
  vehicle, of progress \<open>(t - s) / d\<close>, when \<open>s < e\<close> and \<open>0 \<le> t - s \<le> d\<close>, and none
  otherwise; a route with this band alone has exactly that vehicle or none. But a headway
  that is \<open>NaN\<close> in the preprocessor does not reach the engine as \<open>NaN\<close>: through the JSON
  file it arrives as \<open>null\<close>, the guard \<open>headway <= 0\<close> holds and the band is skipped; a
  route whose bands all have such a headway has no vehicle at any time.
\<close>

theorem NaN_headway_at_engine_and_through_json:
  "(frequencies route = Some freqs \<longrightarrow>
      activeBuses route (Num t) = Some (concat (map (bandVehicles route (Num t)) freqs)))
   \<and> (headway band = NaN \<and> startSec band = Num s \<and> endSec band = Num e
        \<and> dur_of route band = Num d \<longrightarrow>
          \<not> js_le (headway band) (Num 0)
          \<and> (s < e \<longrightarrow> depLoop band (Num d) (Num t) (startSec band) out
                          = Some (visit (Num t) (Num d) (Num s) out))
          \<and> (\<not> s < e \<longrightarrow> depLoop band (Num d) (Num t) (startSec band) out = Some out)
          \<and> bandBuses route (Num t) band out
              = Some (if s < e \<and> 0 \<le> t - s \<and> t - s \<le> d
                      then out @ [\<lparr>progress = Num ((t - s) / d)\<rparr>] else out)
          \<and> bandVehicles route (Num t) band
              = (if s < e \<and> 0 \<le> t - s \<and> t - s \<le> d
                 then [\<lparr>progress = Num ((t - s) / d)\<rparr>] else [])
          \<and> (frequencies route = Some [band] \<longrightarrow>
                activeBuses route (Num t)
                  = Some (if s < e \<and> 0 \<le> t - s \<and> t - s \<le> d
                          then [\<lparr>progress = Num ((t - s) / d)\<rparr>] else [])))
   \<and> (headway band = NaN \<longrightarrow>
        headway (json_band band) = Num 0
        \<and> js_le (headway (json_band band)) (Num 0)
        \<and> bandBuses route simTime (json_band band) out = Some out)
   \<and> (frequencies route = Some freqs \<and> (\<forall>b \<in> set freqs. headway b = NaN) \<longrightarrow>
        activeBuses (json_route route) simTime = Some [])"
proof -
  have A: "\<not> js_le (headway band) (Num 0)
          \<and> (s < e \<longrightarrow> depLoop band (Num d) (Num t) (startSec band) out
                          = Some (visit (Num t) (Num d) (Num s) out))
          \<and> (\<not> s < e \<longrightarrow> depLoop band (Num d) (Num t) (startSec band) out = Some out)
          \<and> bandBuses route (Num t) band out
              = Some (if s < e \<and> 0 \<le> t - s \<and> t - s \<le> d
                      then out @ [\<lparr>progress = Num ((t - s) / d)\<rparr>] else out)
          \<and> bandVehicles route (Num t) band
              = (if s < e \<and> 0 \<le> t - s \<and> t - s \<le> d
                 then [\<lparr>progress = Num ((t - s) / d)\<rparr>] else [])
          \<and> (frequencies route = Some [band] \<longrightarrow>
                activeBuses route (Num t)
                  = Some (if s < e \<and> 0 \<le> t - s \<and> t - s \<le> d
                          then [\<lparr>progress = Num ((t - s) / d)\<rparr>] else []))"
    if a: "headway band = NaN" "startSec band = Num s" "endSec band = Num e"
      "dur_of route band = Num d"
  proof -
    have 1: "\<not> js_le (headway band) (Num 0)" using a(1) by simp
    have 2: "depLoop band (Num d) (Num t) (startSec band) out
             = Some (if s < e then visit (Num t) (Num d) (Num s) out else out)"
      unfolding a(2) using a(1,3) by (rule depLoop_NaN_headway)
    have 3: "bandBuses route (Num t) band out
           = Some (if s < e \<and> 0 \<le> t - s \<and> t - s \<le> d
                   then out @ [\<lparr>progress = Num ((t - s) / d)\<rparr>] else out)"
      using bandBuses_NaN_headway [OF a, of t out] by (simp add: spec_vehicles_def)
    note 4 = bandVehicles_NaN_headway [OF a, of t]
    have 5: "activeBuses route (Num t)
                  = Some (if s < e \<and> 0 \<le> t - s \<and> t - s \<le> d
                          then [\<lparr>progress = Num ((t - s) / d)\<rparr>] else [])"
      if "frequencies route = Some [band]"
      using activeBuses_concat [OF that, of t] by (simp add: 4)
    show ?thesis using 1 2 3 4 5 by simp
  qed
  have B: "headway (json_band band) = Num 0
        \<and> js_le (headway (json_band band)) (Num 0)
        \<and> bandBuses route simTime (json_band band) out = Some out"
    if "headway band = NaN"
    using that by (simp add: json_band_NaN_headway bandBuses_json_NaN_headway)
  show ?thesis
    using A B activeBuses_concat [of route freqs t]
      activeBuses_json_NaN_headways [of route freqs simTime]
    by blast
qed

theorem NaN_headway_at_engine_and_through_json_witness:
  "activeBuses (route0\<lparr>frequencies := Some [band0\<lparr>headway := NaN\<rparr>]\<rparr>) (Num 29100)
     = Some [\<lparr>progress = Num (1 / 6)\<rparr>]
   \<and> activeBuses (route0\<lparr>frequencies := Some [band0\<lparr>headway := NaN\<rparr>]\<rparr>) (Num 30900) = Some []
   \<and> bandBuses route0 (Num 29100) (band0\<lparr>headway := NaN\<rparr>) [] = Some [\<lparr>progress = Num (1 / 6)\<rparr>]
   \<and> activeBuses (json_route (route0\<lparr>frequencies := Some [band0\<lparr>headway := NaN\<rparr>]\<rparr>)) (Num 29100)
       = Some []"
proof -
  let ?b = "band0\<lparr>headway := NaN\<rparr>"
  let ?r = "route0\<lparr>frequencies := Some [?b]\<rparr>"
  have d: "dur_of ?r ?b = Num 1800" "dur_of route0 ?b = Num 1800"
    by (simp_all add: dur_of_def js_or_def band0_def)
  have h: "headway ?b = NaN \<and> startSec ?b = Num 28800 \<and> endSec ?b = Num 32400"
    by (simp add: band0_def)
  have f: "frequencies ?r = Some [?b]" "\<forall>b \<in> set [?b]. headway b = NaN" by simp_all
  note w = NaN_headway_at_engine_and_through_json
  have 1: "activeBuses ?r (Num 29100) = Some [\<lparr>progress = Num (1 / 6)\<rparr>]"
    using w [of ?r "[?b]" 29100 ?b 28800 32400 1800 "[]" "Num 29100"] d h f by simp
  have 2: "activeBuses ?r (Num 30900) = Some []"
    using w [of ?r "[?b]" 30900 ?b 28800 32400 1800 "[]" "Num 30900"] d h f by simp
  have 3: "bandBuses route0 (Num 29100) ?b [] = Some [\<lparr>progress = Num (1 / 6)\<rparr>]"
    using w [of route0 "[?b]" 29100 ?b 28800 32400 1800 "[]" "Num 29100"] d h by simp
  have 4: "activeBuses (json_route ?r) (Num 29100) = Some []"
    using w [of ?r "[?b]" 29100 ?b 28800 32400 1800 "[]" "Num 29100"] f by blast
  show ?thesis using 1 2 3 4 by simp
qed

text \<open>
  The claim says that a \<open>headway_secs\<close> that does not parse, surviving preprocessing,
  yields one vehicle whenever \<open>0 \<le> t - startSec \<le> tripDuration\<close>. The row with headway
  \<open>abc\<close> from 08:00 to 09:00 gives the preprocessor a band with headway \<open>NaN\<close>; read back
  from the file, the route with that band has no vehicle at \<open>t = 29100\<close>, five minutes
  after its only candidate departure.
\<close>

theorem unparsed_headway_skipped_counterexample:
  "emittedFrequencies decimal decimal tripRoute0 Map.empty [rowAbc] ''R1''
     = Inr [band0\<lparr>headway := NaN\<rparr>]
   \<and> headway (band0\<lparr>headway := NaN\<rparr>) = NaN
   \<and> startSec (band0\<lparr>headway := NaN\<rparr>) = Num 28800
   \<and> endSec (band0\<lparr>headway := NaN\<rparr>) = Num 32400
   \<and> dur_of route0 (band0\<lparr>headway := NaN\<rparr>) = Num 1800
   \<and> (28800::real) < 32400 \<and> (0::real) \<le> 29100 - 28800 \<and> (29100::real) - 28800 \<le> 1800
   \<and> json_band (band0\<lparr>headway := NaN\<rparr>) = band0\<lparr>headway := Num 0\<rparr>
   \<and> activeBuses (json_route (route0\<lparr>frequencies := Some [band0\<lparr>headway := NaN\<rparr>]\<rparr>)) (Num 29100)
       = Some []"
  by (simp add: emittedFrequencies_def rowAbc_def tripRoute0_def addFreq_def tripDurOf_def
      bandOfRow_def timeToSec_examples decimal_examples mergeAll_def mergeBands_def mergeStep_def
      sortBands_def window_def band0_def route0_def dur_of_def js_or_def json_band_def
      json_route_def json_number_def activeBuses_def bandBuses_def)

end
